theory Spec2Isabelle
  imports Main
begin

section \<open>Go values\<close>

text \<open>
  The package \<^verbatim>\<open>reporttypes\<close> (file \<^verbatim>\<open>shared/reporttypes.go\<close>) turns a browser
  report into the records the aggregation workers read. Its functions are short; what
  they compute is decided by three library layers they call: \<^verbatim>\<open>encoding/base64\<close>,
  the protocol-buffer wire format of \<^verbatim>\<open>google.golang.org/protobuf\<close> and
  \<^verbatim>\<open>strconv.Itoa\<close>. All of them are embedded here as executable functions.

  A Go \<^verbatim>\<open>string\<close> is an immutable sequence of bytes and a \<^verbatim>\<open>[]byte\<close> a mutable
  one. Both are lists of the eight-bit type \<^typ>\<open>char\<close>, so the conversions
  \<^verbatim>\<open>string(b)\<close> and \<^verbatim>\<open>[]byte(s)\<close> are the identity. A \<^verbatim>\<open>nil\<close> slice and an
  empty one are both the empty list. The conversion \<^verbatim>\<open>uint(c)\<close> of a byte is
  \<open>uint\<close>; the truncating conversion \<^verbatim>\<open>byte(n)\<close> is \<open>byte\<close>, which keeps the low
  eight bits of its argument.
\<close>

type_synonym bytes = "char list"

abbreviation uint :: "char \<Rightarrow> nat" where
  "uint \<equiv> of_char"

abbreviation byte :: "nat \<Rightarrow> char" where
  "byte \<equiv> char_of"

text \<open>
  Every way a call can fail is a value of one type. \<open>Errorf\<close> is an error made by
  \<^verbatim>\<open>fmt.Errorf\<close> and carries the formatted message; \<open>CorruptInputError\<close> is the
  base64 decoder's error with the offset of the offending input byte;
  \<open>InvalidUTF8\<close> and \<open>errDecode\<close> are the two errors of the protocol-buffer
  runtime. The last two constructors are run-time panics: they are not returned to the
  caller but unwind through it, which the embedding renders as the same early exit.
\<close>

datatype error =
    Errorf string
  | CorruptInputError nat
  | InvalidUTF8
  | errDecode
  | Panic_index_out_of_range
  | Panic_nil_dereference

section \<open>encoding/base64: the standard encoding\<close>

text \<open>
  \<^verbatim>\<open>base64.StdEncoding\<close> is the alphabet of RFC 4648 with \<^verbatim>\<open>=\<close> padding, not in
  strict mode. Shifts by a constant are written as multiplication and division by the
  power of two, and the masks \<^verbatim>\<open>& 0x3F\<close> as \<open>mod 64\<close>; the operands of each
  \<^verbatim>\<open>|\<close> occupy disjoint bits, so the disjunction is a sum.
\<close>

definition encodeStd :: string where
  "encodeStd = ''ABCDEFGHIJKLMNOPQRSTUVWXYZabcdefghijklmnopqrstuvwxyz0123456789+/''"

definition padChar :: char where
  "padChar = CHR ''=''"

text \<open>
  The decode map sends a byte of the alphabet to its index and every other byte to
  \<^verbatim>\<open>0xFF\<close>.
\<close>

fun decodeMap_of :: "string \<Rightarrow> nat \<Rightarrow> char \<Rightarrow> nat" where
  "decodeMap_of [] i c = 255"
| "decodeMap_of (e # es) i c = (if c = e then i else decodeMap_of es (Suc i) c)"

definition decodeMap :: "char \<Rightarrow> nat" where
  "decodeMap c = decodeMap_of encodeStd 0 c"

definition encode6 :: "nat \<Rightarrow> char" where
  "encode6 v = encodeStd ! (v mod 64)"

text \<open>
  \<^verbatim>\<open>EncodeToString\<close>: three input bytes make four characters; a remainder of two
  or one bytes is padded to four characters.
\<close>

fun EncodeToString :: "bytes \<Rightarrow> string" where
  "EncodeToString (a # b # c # src) =
     (let val = uint a * 65536 + uint b * 256 + uint c
      in encode6 (val div 262144) # encode6 (val div 4096) # encode6 (val div 64) # encode6 val
           # EncodeToString src)"
| "EncodeToString [a, b] =
     (let val = uint a * 65536 + uint b * 256
      in [encode6 (val div 262144), encode6 (val div 4096), encode6 (val div 64), padChar])"
| "EncodeToString [a] =
     (let val = uint a * 65536
      in [encode6 (val div 262144), encode6 (val div 4096), padChar, padChar])"
| "EncodeToString [] = []"

text \<open>
  \<^verbatim>\<open>DecodeString\<close> reads quanta of four alphabet characters. The state of the
  decoder is the list \<open>dbuf\<close> of the six-bit values read so far in the current quantum
  (its length is the loop counter \<^verbatim>\<open>j\<close> of \<^verbatim>\<open>decodeQuantum\<close>) and the input offset
  \<open>si\<close>. Line feeds and carriage returns are skipped wherever they stand; padding is
  accepted only as the third and fourth, or the fourth, character of the last quantum;
  the bits of a final quantum that do not fill a byte are dropped unchecked. On an
  error the decoder returns the bytes decoded so far beside the error; every caller
  in the package drops them, so the embedding returns the error alone.
\<close>

fun skip_newlines :: "nat \<Rightarrow> string \<Rightarrow> nat \<times> string" where
  "skip_newlines si [] = (si, [])"
| "skip_newlines si (c # src) =
     (if c = CHR 0x0A \<or> c = CHR 0x0D then skip_newlines (Suc si) src else (si, c # src))"

definition quantum :: "nat list \<Rightarrow> bytes" where
  "quantum dbuf =
     (let d = dbuf @ replicate (4 - length dbuf) 0;
          val = d ! 0 * 262144 + d ! 1 * 4096 + d ! 2 * 64 + d ! 3
      in take (length dbuf - 1) [byte (val div 65536), byte (val div 256), byte val])"

fun decode :: "nat list \<Rightarrow> nat \<Rightarrow> string \<Rightarrow> error + bytes" where
  "decode dbuf si [] =
     (if dbuf = [] then Inr [] else Inl (CorruptInputError (si - length dbuf)))"
| "decode dbuf si (c # src) =
     (if decodeMap c \<noteq> 255 then
        (if length dbuf = 3 then
           (case decode [] (Suc si) src of
              Inl err \<Rightarrow> Inl err
            | Inr out \<Rightarrow> Inr (quantum (dbuf @ [decodeMap c]) @ out))
         else decode (dbuf @ [decodeMap c]) (Suc si) src)
      else if c = CHR 0x0A \<or> c = CHR 0x0D then decode dbuf (Suc si) src
      else if c \<noteq> padChar then Inl (CorruptInputError si)
      else if length dbuf < 2 then Inl (CorruptInputError si)
      else if length dbuf = 2 then
        (case skip_newlines (Suc si) src of
           (si', []) \<Rightarrow> Inl (CorruptInputError si')
         | (si', c' # src') \<Rightarrow>
             if c' \<noteq> padChar then Inl (CorruptInputError (si' - 1))
             else (case skip_newlines (Suc si') src' of
                     (si'', []) \<Rightarrow> Inr (quantum dbuf)
                   | (si'', c'' # src'') \<Rightarrow> Inl (CorruptInputError si'')))
      else (case skip_newlines (Suc si) src of
              (si', []) \<Rightarrow> Inr (quantum dbuf)
            | (si', c' # src') \<Rightarrow> Inl (CorruptInputError si')))"

definition DecodeString :: "string \<Rightarrow> error + bytes" where
  "DecodeString s = decode [] 0 s"

section \<open>unicode/utf8: validity\<close>

text \<open>
  \<^verbatim>\<open>utf8.ValidString\<close>. \<open>first\<close> is the table of leading bytes: the size of the
  encoding and the range the second byte must lie in; the later bytes of an encoding
  lie between \<^verbatim>\<open>locb\<close> and \<^verbatim>\<open>hicb\<close>.
\<close>

definition locb :: nat where
  "locb = 0x80"

definition hicb :: nat where
  "hicb = 0xBF"

definition first :: "nat \<Rightarrow> (nat \<times> nat \<times> nat) option" where
  "first x =
     (if 0xC2 \<le> x \<and> x \<le> 0xDF then Some (2, locb, hicb)
      else if x = 0xE0 then Some (3, 0xA0, hicb)
      else if 0xE1 \<le> x \<and> x \<le> 0xEC then Some (3, locb, hicb)
      else if x = 0xED then Some (3, locb, 0x9F)
      else if 0xEE \<le> x \<and> x \<le> 0xEF then Some (3, locb, hicb)
      else if x = 0xF0 then Some (4, 0x90, hicb)
      else if 0xF1 \<le> x \<and> x \<le> 0xF3 then Some (4, locb, hicb)
      else if x = 0xF4 then Some (4, locb, 0x8F)
      else None)"

fun ValidString :: "string \<Rightarrow> bool" where
  "ValidString [] = True"
| "ValidString (c # s) =
     (if uint c < 0x80 then ValidString s
      else
        (case first (uint c) of
           None \<Rightarrow> False
         | Some (sz, lo, hi) \<Rightarrow>
             if Suc (length s) < sz then False
             else if uint (s ! 0) < lo \<or> hi < uint (s ! 0) then False
             else if sz = 2 then ValidString (drop 1 s)
             else if uint (s ! 1) < locb \<or> hicb < uint (s ! 1) then False
             else if sz = 3 then ValidString (drop 2 s)
             else if uint (s ! 2) < locb \<or> hicb < uint (s ! 2) then False
             else ValidString (drop 3 s)))"

declare ValidString.simps(2) [simp del]

section \<open>protowire: the protocol-buffer wire format\<close>

text \<open>
  \<^verbatim>\<open>protowire.AppendVarint\<close> writes a number in base 128, least significant group
  first, with the top bit of a byte set when another byte follows. A Go \<^verbatim>\<open>uint64\<close>
  takes at most ten bytes; the embedding takes any natural number, and the theorems
  bound the numbers where the bound matters.
\<close>

fun AppendVarint :: "nat \<Rightarrow> bytes" where
  "AppendVarint v =
     (if v < 128 then [byte v] else byte (v mod 128 + 128) # AppendVarint (v div 128))"

declare AppendVarint.simps [simp del]

text \<open>The wire types, and a tag: the field number shifted left by three, or the type.\<close>

definition VarintType :: nat where
  "VarintType = 0"

definition Fixed64Type :: nat where
  "Fixed64Type = 1"

definition BytesType :: nat where
  "BytesType = 2"

definition StartGroupType :: nat where
  "StartGroupType = 3"

definition EndGroupType :: nat where
  "EndGroupType = 4"

definition Fixed32Type :: nat where
  "Fixed32Type = 5"

definition AppendTag :: "nat \<Rightarrow> nat \<Rightarrow> bytes" where
  "AppendTag num typ = AppendVarint (num * 8 + typ)"

definition AppendBytes :: "bytes \<Rightarrow> bytes" where
  "AppendBytes v = AppendVarint (length v) @ v"

text \<open>
  \<^verbatim>\<open>protowire.ConsumeVarint\<close> reads at most ten bytes: it fails on an input that
  ends before the number does, and on a tenth byte above 1 (the number would not fit 64
  bits). The consuming functions return the value read and the rest of the input;
  \<open>None\<close> is the negative length by which the Go functions report a parse error.
\<close>

fun ConsumeVarint_at :: "nat \<Rightarrow> bytes \<Rightarrow> (nat \<times> bytes) option" where
  "ConsumeVarint_at k [] = None"
| "ConsumeVarint_at k (c # b) =
     (if k = 9 then (if uint c < 2 then Some (uint c, b) else None)
      else if uint c < 128 then Some (uint c, b)
      else (case ConsumeVarint_at (Suc k) b of
              None \<Rightarrow> None
            | Some (v, b') \<Rightarrow> Some (uint c - 128 + 128 * v, b')))"

definition ConsumeVarint :: "bytes \<Rightarrow> (nat \<times> bytes) option" where
  "ConsumeVarint b = ConsumeVarint_at 0 b"

definition ConsumeBytes :: "bytes \<Rightarrow> (bytes \<times> bytes) option" where
  "ConsumeBytes b =
     (case ConsumeVarint b of
        None \<Rightarrow> None
      | Some (m, b') \<Rightarrow> if length b' < m then None else Some (take m b', drop m b'))"

definition ConsumeFixed :: "nat \<Rightarrow> bytes \<Rightarrow> bytes option" where
  "ConsumeFixed n b = (if length b < n then None else Some (drop n b))"

text \<open>
  \<^verbatim>\<open>protowire.ConsumeTag\<close> accepts the field numbers from 1 to \<^verbatim>\<open>math.MaxInt32\<close>.
\<close>

definition ConsumeTag :: "bytes \<Rightarrow> (nat \<times> nat \<times> bytes) option" where
  "ConsumeTag b =
     (case ConsumeVarint b of
        None \<Rightarrow> None
      | Some (x, b') \<Rightarrow>
          if 2147483647 < x div 8 \<or> x div 8 < 1 then None else Some (x div 8, x mod 8, b'))"

text \<open>
  \<^verbatim>\<open>protowire.ConsumeFieldValue\<close> skips the value of a field by its wire type. The
  value of a group runs to the matching end-group tag and may hold groups in turn; the
  recursion of the Go function is unrolled here into a loop over the list of the
  groups that are open, innermost first. The Go function starts at the recursion limit
  10000 and enters one level deeper with each nested group, so at most 10001 groups
  may be open.
\<close>

definition consumeScalar :: "nat \<Rightarrow> bytes \<Rightarrow> bytes option" where
  "consumeScalar typ b =
     (if typ = VarintType then map_option snd (ConsumeVarint b)
      else if typ = Fixed32Type then ConsumeFixed 4 b
      else if typ = Fixed64Type then ConsumeFixed 8 b
      else if typ = BytesType then map_option snd (ConsumeBytes b)
      else None)"

lemma ConsumeVarint_at_shorter:
  "ConsumeVarint_at k b = Some (v, b') \<Longrightarrow> length b' < length b"
  by (induction k b arbitrary: v rule: ConsumeVarint_at.induct)
     (fastforce split: if_splits option.splits)+

lemma ConsumeVarint_shorter: "ConsumeVarint b = Some (v, b') \<Longrightarrow> length b' < length b"
  unfolding ConsumeVarint_def by (rule ConsumeVarint_at_shorter)

lemma ConsumeBytes_shorter: "ConsumeBytes b = Some (v, b') \<Longrightarrow> length b' < length b"
  by (auto simp: ConsumeBytes_def split: option.splits if_splits dest!: ConsumeVarint_shorter)

lemma ConsumeTag_shorter: "ConsumeTag b = Some (num, typ, b') \<Longrightarrow> length b' < length b"
  by (auto simp: ConsumeTag_def split: option.splits if_splits dest!: ConsumeVarint_shorter)

lemma consumeScalar_shorter: "consumeScalar typ b = Some b' \<Longrightarrow> length b' \<le> length b"
  by (auto simp: consumeScalar_def ConsumeFixed_def split: if_splits
      dest!: ConsumeVarint_shorter ConsumeBytes_shorter)

function consumeGroup :: "nat list \<Rightarrow> bytes \<Rightarrow> bytes option" where
  "consumeGroup [] b = Some b"
| "consumeGroup (num # opened) b =
     (case ConsumeTag b of
        None \<Rightarrow> None
      | Some (num2, typ2, b') \<Rightarrow>
          if typ2 = EndGroupType then
            (if num \<noteq> num2 then None else consumeGroup opened b')
          else if typ2 = StartGroupType then
            (if 10000 \<le> length opened then None else consumeGroup (num2 # num # opened) b')
          else
            (case consumeScalar typ2 b' of
               None \<Rightarrow> None
             | Some b'' \<Rightarrow> consumeGroup (num # opened) b''))"
  by pat_completeness auto
termination
proof (relation "measure (\<lambda>(opened, b). length b)")
  show "wf (measure (\<lambda>(opened, b). length b))"
    by simp
next
  fix num opened b x2 num2 y typ2 b'
  assume "ConsumeTag b = Some x2" "(num2, y) = x2" "(typ2, b') = y"
  then have "length b' < length b"
    by (auto dest: ConsumeTag_shorter)
  then show "((opened, b'), num # opened, b) \<in> measure (\<lambda>(opened, b). length b)"
    and "((num2 # num # opened, b'), num # opened, b) \<in> measure (\<lambda>(opened, b). length b)"
    by simp_all
next
  fix num opened b x2 num2 y typ2 b' b''
  assume "ConsumeTag b = Some x2" "(num2, y) = x2" "(typ2, b') = y"
    and "consumeScalar typ2 b' = Some b''"
  then have "length b' < length b" "length b'' \<le> length b'"
    by (auto dest: ConsumeTag_shorter consumeScalar_shorter)
  then show "((num # opened, b''), num # opened, b) \<in> measure (\<lambda>(opened, b). length b)"
    by simp
qed

definition ConsumeFieldValue :: "nat \<Rightarrow> nat \<Rightarrow> bytes \<Rightarrow> bytes option" where
  "ConsumeFieldValue num typ b =
     (if typ = StartGroupType then consumeGroup [num] b
      else if typ = EndGroupType then None
      else consumeScalar typ b)"

section \<open>proto: marshalling the aggregatable payload\<close>

text \<open>
  The loop of the runtime's \<^verbatim>\<open>unmarshalPointer\<close> at the top level of a message
  (no enclosing group). It reads a tag, rejects the field numbers outside 1 to
  \<^verbatim>\<open>MaxValidNumber\<close> and any end-group tag, and hands the value to the coder of the
  field. Every field of the two messages below has a length-delimited type (bytes,
  string, message): its coder reads the value with \<^verbatim>\<open>ConsumeBytes\<close> and answers
  \<^verbatim>\<open>errUnknown\<close> to any other wire type. A field that is unknown, or has the wrong
  wire type, is skipped by \<^verbatim>\<open>ConsumeFieldValue\<close>. The runtime keeps the skipped bytes
  in a private buffer of the message; the buffer is no field of the record and is left
  out of the embedding. \<open>coderFields\<close> is the table from field numbers to coders.
\<close>

definition MaxValidNumber :: nat where
  "MaxValidNumber = 536870911"

lemma consumeGroup_shorter: "consumeGroup opened b = Some b' \<Longrightarrow> length b' \<le> length b"
proof (induction opened b rule: consumeGroup.induct)
  case (1 b)
  then show ?case by simp
next
  case (2 num opened b)
  from "2.prems" obtain num2 typ2 b1 where tag: "ConsumeTag b = Some (num2, typ2, b1)"
    by (auto split: option.splits)
  then have b1: "length b1 < length b"
    by (rule ConsumeTag_shorter)
  show ?case
  proof (cases "typ2 = EndGroupType")
    case True
    with "2.prems" tag have "num = num2" "consumeGroup opened b1 = Some b'"
      by (auto split: if_splits)
    with "2.IH" (1) [OF tag refl refl True] b1 show ?thesis
      by simp
  next
    case notend: False
    show ?thesis
    proof (cases "typ2 = StartGroupType")
      case True
      with "2.prems" tag notend
      have "\<not> 10000 \<le> length opened" "consumeGroup (num2 # num # opened) b1 = Some b'"
        by (auto split: if_splits)
      with "2.IH" (2) [OF tag refl refl notend True] b1 show ?thesis
        by simp
    next
      case False
      with "2.prems" tag notend obtain b2
        where sc: "consumeScalar typ2 b1 = Some b2" and r: "consumeGroup (num # opened) b2 = Some b'"
        by (auto split: option.splits)
      from sc have "length b2 \<le> length b1"
        by (rule consumeScalar_shorter)
      with "2.IH" (3) [OF tag refl refl notend False sc] r b1 show ?thesis
        by simp
    qed
  qed
qed

lemma ConsumeFieldValue_shorter:
  "ConsumeFieldValue num typ b = Some b' \<Longrightarrow> length b' \<le> length b"
  by (auto simp: ConsumeFieldValue_def simp del: consumeGroup.simps split: if_splits
      dest: consumeGroup_shorter consumeScalar_shorter)

function unmarshalPointer ::
  "(nat \<Rightarrow> (bytes \<Rightarrow> 'm \<Rightarrow> error + 'm) option) \<Rightarrow> bytes \<Rightarrow> 'm \<Rightarrow> error + 'm" where
  "unmarshalPointer coderFields b m =
     (if b = [] then Inr m
      else
        (case ConsumeVarint b of
           None \<Rightarrow> Inl errDecode
         | Some (tag, b1) \<Rightarrow>
             if tag div 8 < 1 \<or> MaxValidNumber < tag div 8 then Inl errDecode
             else if tag mod 8 = EndGroupType then Inl errDecode
             else
               (case (if tag mod 8 = BytesType then coderFields (tag div 8) else None) of
                  Some unmarshal \<Rightarrow>
                    (case ConsumeBytes b1 of
                       None \<Rightarrow> Inl errDecode
                     | Some (v, b2) \<Rightarrow>
                         (case unmarshal v m of
                            Inl err \<Rightarrow> Inl err
                          | Inr m' \<Rightarrow> unmarshalPointer coderFields b2 m'))
                | None \<Rightarrow>
                    (case ConsumeFieldValue (tag div 8) (tag mod 8) b1 of
                       None \<Rightarrow> Inl errDecode
                     | Some b2 \<Rightarrow> unmarshalPointer coderFields b2 m))))"
  by pat_completeness auto
termination
proof (relation "measure (\<lambda>(coderFields, b, m). length b)")
  show "wf (measure (\<lambda>(coderFields, b, m). length b))"
    by simp
next
  fix coderFields :: "nat \<Rightarrow> (bytes \<Rightarrow> 'm \<Rightarrow> error + 'm) option"
  fix b :: bytes and m m' :: 'm and x2 tag b1 x2a v b2
  assume "ConsumeVarint b = Some x2" "(tag, b1) = x2"
    and "ConsumeBytes b1 = Some x2a" "(v, b2) = x2a"
  then have "length b1 < length b" "length b2 < length b1"
    by (auto dest: ConsumeVarint_shorter ConsumeBytes_shorter)
  then show "((coderFields, b2, m'), coderFields, b, m)
      \<in> measure (\<lambda>(coderFields, b, m). length b)"
    by simp
next
  fix coderFields :: "nat \<Rightarrow> (bytes \<Rightarrow> 'm \<Rightarrow> error + 'm) option"
  fix b :: bytes and m :: 'm and x2 tag b1 b2
  assume "ConsumeVarint b = Some x2" "(tag, b1) = x2"
    and "ConsumeFieldValue (tag div 8) (tag mod 8) b1 = Some b2"
  then have "length b1 < length b" "length b2 \<le> length b1"
    by (auto dest: ConsumeVarint_shorter ConsumeFieldValue_shorter)
  then show "((coderFields, b2, m), coderFields, b, m)
      \<in> measure (\<lambda>(coderFields, b, m). length b)"
    by simp
qed

declare unmarshalPointer.simps [simp del]

text \<open>
  The two messages of the package \<^verbatim>\<open>crypto_go_proto\<close>. The Go structs are
  \<^verbatim>\<open>StandardCiphertext{Data []byte}\<close> and
  \<^verbatim>\<open>AggregatablePayload{Payload *StandardCiphertext, SharedInfo string, KeyId string}\<close>,
  as \<^verbatim>\<open>reporttypes.go\<close> builds them. The fields of the second message carry the suffix
  \<open>_pb\<close> where the report has a field of the same name.
\<close>

record StandardCiphertext =
  Data :: bytes

record AggregatablePayload =
  Payload_pb :: "StandardCiphertext option"
  SharedInfo_pb :: string
  KeyId :: string

text \<open>
  The schema file \<^verbatim>\<open>crypto.proto\<close> of the repository, from which the package
  \<^verbatim>\<open>crypto_go_proto\<close> is generated, is not among the sources. The spec describes
  the outbound wire schema as a binary-packed record of three fields: ciphertext bytes,
  shared-info string, key identifier string. The four definitions that depend on the
  schema are modelled from that description, with the rules of proto3: a scalar field
  that holds the zero value is not written, a message field is written when its
  pointer is not \<^verbatim>\<open>nil\<close>, fields are written in the order of their numbers, and a
  string field that is not valid UTF-8 is an error, in \<^verbatim>\<open>Marshal\<close> and in
  \<^verbatim>\<open>Unmarshal\<close> alike.
\<close>

text \<open>
  Modelled from the spec: the ciphertext is a nested message (the Go struct
  \<^verbatim>\<open>StandardCiphertext\<close>, as the extraction builds it) whose field 1 holds the bytes.
\<close>

definition marshal_StandardCiphertext :: "StandardCiphertext \<Rightarrow> bytes" where
  "marshal_StandardCiphertext m =
     (if Data m = [] then [] else AppendTag 1 BytesType @ AppendBytes (Data m))"

text \<open>
  Modelled from the spec: the three fields of the outbound record are the fields 1, 2
  and 3 of the message, in the order in which the spec lists them.
\<close>

definition Marshal :: "AggregatablePayload \<Rightarrow> error + bytes" where
  "Marshal m =
     (let b1 = (case Payload_pb m of
                  None \<Rightarrow> []
                | Some sc \<Rightarrow> AppendTag 1 BytesType @ AppendBytes (marshal_StandardCiphertext sc))
      in if SharedInfo_pb m \<noteq> [] \<and> \<not> ValidString (SharedInfo_pb m) then Inl InvalidUTF8
         else
           (let b2 = b1 @ (if SharedInfo_pb m = [] then []
                           else AppendTag 2 BytesType @ AppendBytes (SharedInfo_pb m))
            in if KeyId m \<noteq> [] \<and> \<not> ValidString (KeyId m) then Inl InvalidUTF8
               else Inr (b2 @ (if KeyId m = [] then []
                               else AppendTag 3 BytesType @ AppendBytes (KeyId m)))))"

text \<open>
  Modelled from the spec: the coders of the nested message, for the same field 1.
\<close>

definition coderFields_StandardCiphertext ::
  "nat \<Rightarrow> (bytes \<Rightarrow> StandardCiphertext \<Rightarrow> error + StandardCiphertext) option" where
  "coderFields_StandardCiphertext num =
     (if num = 1 then Some (\<lambda>v m. Inr (m\<lparr>Data := v\<rparr>)) else None)"

text \<open>
  Modelled from the spec: the coders of the outbound record, for the same fields 1, 2
  and 3. A message field that occurs again is merged into the message already read; a
  string field that occurs again replaces the string.
\<close>

definition coderFields_AggregatablePayload ::
  "nat \<Rightarrow> (bytes \<Rightarrow> AggregatablePayload \<Rightarrow> error + AggregatablePayload) option" where
  "coderFields_AggregatablePayload num =
     (if num = 1 then
        Some (\<lambda>v m.
          case unmarshalPointer coderFields_StandardCiphertext v
                 (case Payload_pb m of None \<Rightarrow> \<lparr>Data = []\<rparr> | Some sc \<Rightarrow> sc) of
            Inl err \<Rightarrow> Inl err
          | Inr sc \<Rightarrow> Inr (m\<lparr>Payload_pb := Some sc\<rparr>))
      else if num = 2 then
        Some (\<lambda>v m. if \<not> ValidString v then Inl InvalidUTF8 else Inr (m\<lparr>SharedInfo_pb := v\<rparr>))
      else if num = 3 then
        Some (\<lambda>v m. if \<not> ValidString v then Inl InvalidUTF8 else Inr (m\<lparr>KeyId := v\<rparr>))
      else None)"

text \<open>\<^verbatim>\<open>proto.Unmarshal\<close> into a fresh message, as the deserializer calls it.\<close>

definition Unmarshal :: "bytes \<Rightarrow> error + AggregatablePayload" where
  "Unmarshal b =
     unmarshalPointer coderFields_AggregatablePayload b
       \<lparr>Payload_pb = None, SharedInfo_pb = [], KeyId = []\<rparr>"

section \<open>strconv: decimal formatting\<close>

text \<open>
  \<^verbatim>\<open>strconv.Itoa\<close>, which is also what the verb \<^verbatim>\<open>%d\<close> of \<^verbatim>\<open>fmt.Errorf\<close>
  prints for an \<^verbatim>\<open>int\<close>.
\<close>

fun formatBits :: "nat \<Rightarrow> string" where
  "formatBits u = (if u < 10 then [byte (48 + u)] else formatBits (u div 10) @ [byte (48 + u mod 10)])"

declare formatBits.simps [simp del]

definition Itoa :: "int \<Rightarrow> string" where
  "Itoa i = (if i < 0 then CHR ''-'' # formatBits (nat (- i)) else formatBits (nat i))"

section \<open>reporttypes\<close>

definition onepartyProtocol :: string where
  "onepartyProtocol = ''one-party''"

definition mpcProtocol :: string where
  "mpcProtocol = ''mpc''"

record AggregationServicePayload =
  Payload :: string
  KeyID :: string
  DebugCleartextPayload :: string

text \<open>
  The payloads of a report are a slice of pointers, and an entry of the slice may be
  \<^verbatim>\<open>nil\<close> (a \<^verbatim>\<open>null\<close> in the JSON array): \<open>None\<close> here.
\<close>

record AggregatableReport =
  SourceSite :: string
  AttributionDestination :: string
  SharedInfo :: string
  AggregationServicePayloads :: "AggregationServicePayload option list"
  SourceDebugKey :: string
  TriggerDebugKey :: string

definition GetProtocol :: "AggregatableReport \<Rightarrow> error + string" where
  "GetProtocol r =
     (if length (AggregationServicePayloads r) = 1 then Inr onepartyProtocol
      else if length (AggregationServicePayloads r) = 2 then Inr mpcProtocol
      else Inl (Errorf (''expect 1 or 2 payloads, got ''
                  @ Itoa (int (length (AggregationServicePayloads r))))))"

text \<open>\<open>Validate\<close> returns an \<^verbatim>\<open>error\<close>; \<open>None\<close> is \<^verbatim>\<open>nil\<close>.\<close>

definition Validate :: "AggregatableReport \<Rightarrow> error option" where
  "Validate r =
     (let got = length (AggregationServicePayloads r)
      in if got \<noteq> 1 \<and> got \<noteq> 2
         then Some (Errorf (''expected one or two payloads, got '' @ Itoa (int got)))
         else None)"

definition IsDebugReport :: "AggregatableReport \<Rightarrow> error + bool" where
  "IsDebugReport r =
     (case AggregationServicePayloads r of
        [] \<Rightarrow> Inl Panic_index_out_of_range
      | None # _ \<Rightarrow> Inl Panic_nil_dereference
      | Some payload # _ \<Rightarrow> Inr (DebugCleartextPayload payload \<noteq> []))"

text \<open>
  The loop of \<open>ExtractPayloadsFromAggregatableReport\<close> over the payloads;
  \<open>output\<close> is the slice the loop appends to.
\<close>

fun extract_loop ::
  "bool \<Rightarrow> string \<Rightarrow> AggregationServicePayload option list \<Rightarrow> AggregatablePayload list
     \<Rightarrow> error + AggregatablePayload list" where
  "extract_loop useCleartext sharedInfo [] output = Inr output"
| "extract_loop useCleartext sharedInfo (None # rest) output = Inl Panic_nil_dereference"
| "extract_loop useCleartext sharedInfo (Some payload # rest) output =
     (case (if useCleartext then DecodeString (DebugCleartextPayload payload)
            else DecodeString (Payload payload)) of
        Inl err \<Rightarrow> Inl err
      | Inr data \<Rightarrow>
          extract_loop useCleartext sharedInfo rest
            (output @ [\<lparr>Payload_pb = Some \<lparr>Data = data\<rparr>, SharedInfo_pb = sharedInfo,
                        KeyId = (if useCleartext then [] else KeyID payload)\<rparr>]))"

definition ExtractPayloadsFromAggregatableReport ::
  "AggregatableReport \<Rightarrow> bool \<Rightarrow> error + AggregatablePayload list" where
  "ExtractPayloadsFromAggregatableReport r useCleartext =
     extract_loop useCleartext (SharedInfo r) (AggregationServicePayloads r) []"

definition SerializeAggregatablePayload :: "AggregatablePayload \<Rightarrow> error + string" where
  "SerializeAggregatablePayload encrypted =
     (case Marshal encrypted of
        Inl err \<Rightarrow> Inl err
      | Inr bEncrypted \<Rightarrow> Inr (EncodeToString bEncrypted))"

definition DeserializeAggregatablePayload :: "string \<Rightarrow> error + AggregatablePayload" where
  "DeserializeAggregatablePayload line =
     (case DecodeString line of
        Inl err \<Rightarrow> Inl err
      | Inr bsc \<Rightarrow>
          (case Unmarshal bsc of
             Inl err \<Rightarrow> Inl err
           | Inr payload \<Rightarrow> Inr payload))"

text \<open>
  The loop of \<open>convertReport\<close> over the extracted records; \<open>index\<close> is the position
  of the next record and \<open>output\<close> the map filled so far.
\<close>

fun convert_loop ::
  "nat \<Rightarrow> AggregatablePayload list \<Rightarrow> (string \<rightharpoonup> string) \<Rightarrow> error + (string \<rightharpoonup> string)" where
  "convert_loop index [] output = Inr output"
| "convert_loop index (record # rest) output =
     (case SerializeAggregatablePayload record of
        Inl err \<Rightarrow> Inl err
      | Inr payload \<Rightarrow> convert_loop (Suc index) rest (output(Itoa (int index) \<mapsto> payload)))"

definition convertReport :: "AggregatableReport \<Rightarrow> bool \<Rightarrow> error + (string \<rightharpoonup> string)" where
  "convertReport r useCleartext =
     (case ExtractPayloadsFromAggregatableReport r useCleartext of
        Inl err \<Rightarrow> Inl err
      | Inr payloads \<Rightarrow> convert_loop 0 payloads Map.empty)"

definition GetSerializedEncryptedRecords :: "AggregatableReport \<Rightarrow> error + (string \<rightharpoonup> string)" where
  "GetSerializedEncryptedRecords r = convertReport r False"

definition GetSerializedCleartextRecords :: "AggregatableReport \<Rightarrow> error + (string \<rightharpoonup> string)" where
  "GetSerializedCleartextRecords r = convertReport r True"

section \<open>Sample reports\<close>

text \<open>
  The report of the spec's end-to-end scenario: one payload \<^verbatim>\<open>AQ==\<close> under the key
  \<^verbatim>\<open>k1\<close>, no cleartext, shared info \<^verbatim>\<open>SI\<close>. \<open>report_of\<close> builds a report from
  its shared info and its payloads, with the other fields empty.
\<close>

definition report_of :: "string \<Rightarrow> AggregationServicePayload option list \<Rightarrow> AggregatableReport" where
  "report_of sharedInfo payloads =
     \<lparr>SourceSite = [], AttributionDestination = [], SharedInfo = sharedInfo,
      AggregationServicePayloads = payloads, SourceDebugKey = [], TriggerDebugKey = []\<rparr>"

definition scenario_payload :: AggregationServicePayload where
  "scenario_payload = \<lparr>Payload = ''AQ=='', KeyID = ''k1'', DebugCleartextPayload = []\<rparr>"

definition scenario_report :: AggregatableReport where
  "scenario_report = report_of ''SI'' [Some scenario_payload]"

text \<open>
  A second payload, which carries a cleartext copy, and the reports the theorems below
  are tried on: two payloads, three payloads, a payload that is not base64, and a key
  identifier that is not UTF-8.
\<close>

definition debug_payload :: AggregationServicePayload where
  "debug_payload = \<lparr>Payload = ''Ag=='', KeyID = ''k2'', DebugCleartextPayload = ''Aw==''\<rparr>"

definition two_party_report :: AggregatableReport where
  "two_party_report = report_of ''SI'' [Some scenario_payload, Some debug_payload]"

definition three_payload_report :: AggregatableReport where
  "three_payload_report =
     report_of ''SI'' [Some scenario_payload, Some debug_payload, Some scenario_payload]"

definition bad_base64_report :: AggregatableReport where
  "bad_base64_report =
     report_of ''SI'' [Some scenario_payload, Some (debug_payload\<lparr>Payload := ''!!!''\<rparr>)]"

definition bad_key_report :: AggregatableReport where
  "bad_key_report =
     report_of ''SI'' [Some scenario_payload, Some (debug_payload\<lparr>KeyID := [CHR 0xFF]\<rparr>)]"

section \<open>Facts about the base64 encoding\<close>

text \<open>
  Decoding inverts encoding: the alphabet has 64 distinct characters, so the decode map
  inverts the encode table, and the four six-bit groups of a quantum hold the same 24
  bits as its three bytes.
\<close>

lemma byte_eq_iff: "byte n = c \<longleftrightarrow> n mod 256 = uint c"
  by (metis char_of_char of_char_of)

lemma decodeMap_of_nth:
  "distinct es \<Longrightarrow> i < length es \<Longrightarrow> decodeMap_of es k (es ! i) = k + i"
proof (induction es arbitrary: i k)
  case Nil
  then show ?case by simp
next
  case (Cons e es)
  show ?case
  proof (cases i)
    case 0
    then show ?thesis by simp
  next
    case (Suc j)
    with Cons.prems have "es ! j \<noteq> e" "distinct es" "j < length es"
      by auto
    with Cons.IH [of j "Suc k"] Suc show ?thesis by simp
  qed
qed

lemma distinct_encodeStd: "distinct encodeStd"
  by (simp add: encodeStd_def)

lemma length_encodeStd: "length encodeStd = 64"
  by (simp add: encodeStd_def)

lemma decodeMap_encode6: "decodeMap (encode6 v) = v mod 64"
  using decodeMap_of_nth [OF distinct_encodeStd, of "v mod 64" 0]
  by (simp add: decodeMap_def encode6_def length_encodeStd)

lemma decodeMap_padChar: "decodeMap padChar = 255"
  by (simp add: decodeMap_def padChar_def encodeStd_def)

lemma sextets_join:
  fixes v :: nat
  assumes "v < 16777216"
  shows "v div 262144 mod 64 * 262144 + v div 4096 mod 64 * 4096 + v div 64 mod 64 * 64 + v mod 64 = v"
proof -
  define x1 where "x1 = v div 64"
  define x2 where "x2 = x1 div 64"
  define x3 where "x3 = x2 div 64"
  have d2: "v div 4096 = x2"
    using div_mult2_eq [of v 64 64] by (simp add: x1_def x2_def)
  have d3: "v div 262144 = x3"
    using div_mult2_eq [of v 4096 64] d2 by (simp add: x3_def)
  have e0: "v = 64 * x1 + v mod 64"
    by (simp add: x1_def)
  have e1: "x1 = 64 * x2 + x1 mod 64"
    by (simp add: x2_def)
  have e2: "x2 = 64 * x3 + x2 mod 64"
    by (simp add: x3_def)
  have "x3 < 64"
    using assms d3 [symmetric] by (simp add: less_mult_imp_div_less)
  then have e3: "x3 mod 64 = x3"
    by simp
  show ?thesis
    unfolding d2 d3 x1_def [symmetric] e3 using e0 e1 e2 by linarith
qed

lemma bytes_split:
  fixes a b c :: nat
  assumes "a < 256" "b < 256" "c < 256"
  shows "(a * 65536 + b * 256 + c) div 65536 = a"
    and "(a * 65536 + b * 256 + c) div 256 mod 256 = b"
    and "(a * 65536 + b * 256 + c) mod 256 = c"
proof -
  show "(a * 65536 + b * 256 + c) div 65536 = a"
    using assms by (intro div_nat_eqI) simp_all
  have "(a * 65536 + b * 256 + c) div 256 = a * 256 + b"
    using assms by (intro div_nat_eqI) simp_all
  then show "(a * 65536 + b * 256 + c) div 256 mod 256 = b"
    using assms by simp
  have "a * 65536 + b * 256 + c = (a * 256 + b) * 256 + c"
    by simp
  then have "(a * 65536 + b * 256 + c) mod 256 = c mod 256"
    by (simp only: mod_mult_self3)
  then show "(a * 65536 + b * 256 + c) mod 256 = c"
    using assms by simp
qed

lemma quantum4:
  "quantum [d0, d1, d2, d3] =
     [byte ((d0 * 262144 + d1 * 4096 + d2 * 64 + d3) div 65536),
      byte ((d0 * 262144 + d1 * 4096 + d2 * 64 + d3) div 256),
      byte (d0 * 262144 + d1 * 4096 + d2 * 64 + d3)]"
  by (simp add: quantum_def Let_def)

lemma quantum3:
  "quantum [d0, d1, d2] =
     [byte ((d0 * 262144 + d1 * 4096 + d2 * 64) div 65536),
      byte ((d0 * 262144 + d1 * 4096 + d2 * 64) div 256)]"
  by (simp add: quantum_def Let_def numeral_3_eq_3)

lemma quantum2:
  "quantum [d0, d1] = [byte ((d0 * 262144 + d1 * 4096) div 65536)]"
  by (simp add: quantum_def Let_def numeral_2_eq_2)

lemma quantum_encode:
  fixes a b c :: char
  defines "v \<equiv> uint a * 65536 + uint b * 256 + uint c"
  shows "quantum [v div 262144 mod 64, v div 4096 mod 64, v div 64 mod 64, v mod 64] = [a, b, c]"
proof -
  have lt: "uint a < 256" "uint b < 256" "uint c < 256"
    by simp_all
  then have "v < 16777216"
    unfolding v_def by linarith
  then have j: "v div 262144 mod 64 * 262144 + v div 4096 mod 64 * 4096 + v div 64 mod 64 * 64 + v mod 64 = v"
    by (rule sextets_join)
  have "byte (v div 65536) = a" "byte (v div 256) = b" "byte v = c"
    using bytes_split [OF lt] unfolding v_def [symmetric] by (simp_all add: byte_eq_iff)
  then show ?thesis
    unfolding quantum4 j by (simp only:)
qed

lemma quantum_encode2:
  fixes a b :: char
  defines "v \<equiv> uint a * 65536 + uint b * 256"
  shows "quantum [v div 262144 mod 64, v div 4096 mod 64, v div 64 mod 64] = [a, b]"
proof -
  have lt: "uint a < 256" "uint b < 256" "(0::nat) < 256"
    by simp_all
  then have "v < 16777216"
    unfolding v_def by linarith
  then have j: "v div 262144 mod 64 * 262144 + v div 4096 mod 64 * 4096 + v div 64 mod 64 * 64 + v mod 64 = v"
    by (rule sextets_join)
  have "v = (uint a * 1024 + uint b * 4) * 64"
    by (simp add: v_def)
  then have "v mod 64 = 0"
    by (simp only: mod_mult_self2_is_0)
  with j have j': "v div 262144 mod 64 * 262144 + v div 4096 mod 64 * 4096 + v div 64 mod 64 * 64 = v"
    by (simp only: add_0_right)
  have "byte (v div 65536) = a" "byte (v div 256) = b"
    using bytes_split [OF lt] unfolding v_def [symmetric] by (simp_all add: byte_eq_iff)
  then show ?thesis
    unfolding quantum3 j' by (simp only:)
qed

lemma quantum_encode1:
  fixes a :: char
  defines "v \<equiv> uint a * 65536"
  shows "quantum [v div 262144 mod 64, v div 4096 mod 64] = [a]"
proof -
  have lt: "uint a < 256" "(0::nat) < 256" "(0::nat) < 256"
    by simp_all
  then have "v < 16777216"
    unfolding v_def by linarith
  then have j: "v div 262144 mod 64 * 262144 + v div 4096 mod 64 * 4096 + v div 64 mod 64 * 64 + v mod 64 = v"
    by (rule sextets_join)
  have "v = (uint a * 1024) * 64"
    by (simp add: v_def)
  then have m0: "v mod 64 = 0"
    by (simp only: mod_mult_self2_is_0)
  have "v = (uint a * 16) * 64 * 64"
    by (simp add: v_def)
  then have "v div 64 = (uint a * 16) * 64"
    by (simp only: nonzero_mult_div_cancel_right)
  then have "v div 64 mod 64 = 0"
    by (simp only: mod_mult_self2_is_0)
  with j m0 have j': "v div 262144 mod 64 * 262144 + v div 4096 mod 64 * 4096 = v"
    by (simp only: add_0_right mult_zero_left)
  have "byte (v div 65536) = a"
    using bytes_split [OF lt] unfolding v_def [symmetric] by (simp_all add: byte_eq_iff)
  then show ?thesis
    unfolding quantum2 j' by (simp only:)
qed

lemma sextet_valid: "(v::nat) mod 64 \<noteq> 255"
proof -
  have "v mod 64 < 64" by simp
  then show ?thesis by linarith
qed

lemma padChar_not_newline: "padChar \<noteq> CHR 0x0A" "padChar \<noteq> CHR 0x0D"
  by (simp_all add: padChar_def)

lemma decode_quad:
  "decode [] si (encode6 v0 # encode6 v1 # encode6 v2 # encode6 v3 # src) =
     (case decode [] (Suc (Suc (Suc (Suc si)))) src of
        Inl err \<Rightarrow> Inl err
      | Inr out \<Rightarrow> Inr (quantum [v0 mod 64, v1 mod 64, v2 mod 64, v3 mod 64] @ out))"
  by (simp add: decodeMap_encode6 sextet_valid cong: sum.case_cong)

lemma decode_pad1:
  "decode [] si [encode6 v0, encode6 v1, encode6 v2, padChar] =
     Inr (quantum [v0 mod 64, v1 mod 64, v2 mod 64])"
  by (simp add: decodeMap_encode6 sextet_valid decodeMap_padChar padChar_not_newline)

lemma decode_pad2:
  "decode [] si [encode6 v0, encode6 v1, padChar, padChar] =
     Inr (quantum [v0 mod 64, v1 mod 64])"
  by (simp add: decodeMap_encode6 sextet_valid decodeMap_padChar padChar_not_newline)

lemma decode_EncodeToString: "decode [] si (EncodeToString src) = Inr src"
proof (induction src arbitrary: si rule: EncodeToString.induct)
  case (1 a b c src)
  show ?case
    by (simp only: EncodeToString.simps Let_def decode_quad "1.IH" quantum_encode sum.case
        append.simps)
next
  case (2 a b)
  show ?case
    by (simp only: EncodeToString.simps Let_def decode_pad1 quantum_encode2)
next
  case (3 a)
  show ?case
    by (simp only: EncodeToString.simps Let_def decode_pad2 quantum_encode1)
next
  case 4
  show ?case by simp
qed

lemma DecodeString_EncodeToString: "DecodeString (EncodeToString src) = Inr src"
  by (simp add: DecodeString_def decode_EncodeToString)

lemma decode_error: "decode dbuf si s = Inl e \<Longrightarrow> \<exists>n. e = CorruptInputError n"
  by (induction dbuf si s rule: decode.induct)
     (auto split: if_splits sum.splits prod.splits list.splits)

section \<open>Facts about the wire format\<close>

text \<open>
  A number below \<open>2 ^ 64\<close> is read back from its varint, a length-delimited field is
  read back from its tag, length and value, and so a message is read back from its
  encoding. \<^verbatim>\<open>Marshal\<close> fails on invalid UTF-8 only.
\<close>

lemma AppendVarint_small: "v < 128 \<Longrightarrow> AppendVarint v = [byte v]"
  by (subst AppendVarint.simps) simp

lemma AppendVarint_not_Nil: "AppendVarint v \<noteq> []"
  by (subst AppendVarint.simps) simp

lemma AppendVarint_large:
  "\<not> v < 128 \<Longrightarrow> AppendVarint v = byte (v mod 128 + 128) # AppendVarint (v div 128)"
  by (subst AppendVarint.simps) simp

lemma ConsumeVarint_at_AppendVarint:
  "k \<le> 9 \<Longrightarrow> v < 2 ^ (64 - 7 * k) \<Longrightarrow> ConsumeVarint_at k (AppendVarint v @ b) = Some (v, b)"
proof (induction v arbitrary: k rule: AppendVarint.induct)
  case (1 v)
  show ?case
  proof (cases "v < 128")
    case True
    then have u: "uint (byte v) = v"
      by simp
    show ?thesis
    proof (cases "k = 9")
      case True
      with "1.prems" have "v < 2"
        by simp
      with True u \<open>v < 128\<close> show ?thesis
        by (simp add: AppendVarint_small)
    next
      case False
      with u \<open>v < 128\<close> show ?thesis
        by (simp add: AppendVarint_small)
    qed
  next
    case False
    have k: "k \<noteq> 9"
    proof
      assume "k = 9"
      with "1.prems" have "v < 2"
        by simp
      with False show False
        by simp
    qed
    with "1.prems" have k8: "k \<le> 8"
      by simp
    have "v mod 128 + 128 < 256"
      using mod_less_divisor [of 128 v] by linarith
    then have u: "uint (byte (v mod 128 + 128)) = v mod 128 + 128"
      by simp
    from k8 have "64 - 7 * k = 7 + (64 - 7 * Suc k)"
      by simp
    then have "(2::nat) ^ (64 - 7 * k) = 128 * 2 ^ (64 - 7 * Suc k)"
      by (simp only: power_add) simp
    with "1.prems" have "v < 2 ^ (64 - 7 * Suc k) * 128"
      by simp
    then have "v div 128 < 2 ^ (64 - 7 * Suc k)"
      by (rule less_mult_imp_div_less)
    with k8 "1.IH" [OF False, of "Suc k"]
    have "ConsumeVarint_at (Suc k) (AppendVarint (v div 128) @ b) = Some (v div 128, b)"
      by simp
    with k u show ?thesis
      by (simp add: AppendVarint_large [OF False])
  qed
qed

lemma ConsumeVarint_AppendVarint:
  "v < 2 ^ 64 \<Longrightarrow> ConsumeVarint (AppendVarint v @ b) = Some (v, b)"
  using ConsumeVarint_at_AppendVarint [of 0 v b] by (simp add: ConsumeVarint_def)

lemma ConsumeBytes_AppendBytes:
  "length v < 2 ^ 64 \<Longrightarrow> ConsumeBytes (AppendBytes v @ b) = Some (v, b)"
  by (simp add: ConsumeBytes_def AppendBytes_def ConsumeVarint_AppendVarint)

lemma length_AppendVarint: "v < 128 ^ Suc n \<Longrightarrow> length (AppendVarint v) \<le> Suc n"
proof (induction n arbitrary: v)
  case 0
  then show ?case by (simp add: AppendVarint_small)
next
  case (Suc n)
  show ?case
  proof (cases "v < 128")
    case True
    then show ?thesis by (simp add: AppendVarint_small)
  next
    case False
    from Suc.prems have "v < 128 ^ Suc n * 128"
      by simp
    then have "v div 128 < 128 ^ Suc n"
      by (rule less_mult_imp_div_less)
    from Suc.IH [OF this] False show ?thesis
      by (simp add: AppendVarint_large)
  qed
qed

lemma length_AppendBytes: "length v < 2 ^ 63 \<Longrightarrow> length (AppendBytes v) \<le> 9 + length v"
proof -
  assume "length v < 2 ^ 63"
  then have "length v < 128 ^ Suc 8"
    by simp
  from length_AppendVarint [OF this] show ?thesis
    by (simp add: AppendBytes_def)
qed

lemma unmarshalPointer_Nil: "unmarshalPointer coderFields [] m = Inr m"
  by (subst unmarshalPointer.simps) simp

lemma unmarshalPointer_step:
  assumes "b \<noteq> []" "ConsumeVarint b = Some (tag, b1)"
    and "tag div 8 = num" "tag mod 8 = BytesType" "1 \<le> num" "num \<le> MaxValidNumber"
    and "coderFields num = Some unmarshal" "ConsumeBytes b1 = Some (v, b2)"
  shows "unmarshalPointer coderFields b m =
     (case unmarshal v m of
        Inl err \<Rightarrow> Inl err
      | Inr m' \<Rightarrow> unmarshalPointer coderFields b2 m')"
proof -
  have ty: "BytesType \<noteq> EndGroupType"
    by (simp add: BytesType_def EndGroupType_def)
  from assms(5,6) have range: "num \<noteq> 0" "\<not> MaxValidNumber < num"
    by simp_all
  show ?thesis
    by (subst unmarshalPointer.simps) (simp add: assms(1-4,7,8) ty range)
qed

lemma unmarshalPointer_field:
  assumes "coderFields num = Some unmarshal" "1 \<le> num" "num \<le> MaxValidNumber"
    and "length v < 2 ^ 64"
  shows "unmarshalPointer coderFields (AppendTag num BytesType @ AppendBytes v @ b) m =
     (case unmarshal v m of
        Inl err \<Rightarrow> Inl err
      | Inr m' \<Rightarrow> unmarshalPointer coderFields b m')"
proof (rule unmarshalPointer_step)
  show "AppendTag num BytesType @ AppendBytes v @ b \<noteq> []"
    by (simp add: AppendTag_def AppendVarint_not_Nil)
  from assms(3) have "num * 8 + BytesType < 2 ^ 64"
    by (simp add: MaxValidNumber_def BytesType_def)
  then show "ConsumeVarint (AppendTag num BytesType @ AppendBytes v @ b)
      = Some (num * 8 + BytesType, AppendBytes v @ b)"
    unfolding AppendTag_def by (rule ConsumeVarint_AppendVarint)
  show "(num * 8 + BytesType) div 8 = num"
    by (simp add: BytesType_def)
  have "(num * 8 + BytesType) mod 8 = BytesType mod 8"
    by (rule mod_mult_self3)
  then show "(num * 8 + BytesType) mod 8 = BytesType"
    by (simp add: BytesType_def)
  show "1 \<le> num" "num \<le> MaxValidNumber" "coderFields num = Some unmarshal"
    by (rule assms)+
  show "ConsumeBytes (AppendBytes v @ b) = Some (v, b)"
    using assms(4) by (rule ConsumeBytes_AppendBytes)
qed

lemma unmarshal_marshal_StandardCiphertext:
  assumes "length (Data sc) < 2 ^ 63"
  shows "unmarshalPointer coderFields_StandardCiphertext (marshal_StandardCiphertext sc)
           \<lparr>Data = []\<rparr> = Inr sc"
proof (cases "Data sc = []")
  case True
  then show ?thesis
    by (simp add: marshal_StandardCiphertext_def unmarshalPointer_Nil)
next
  case False
  from assms have len: "length (Data sc) < 2 ^ 64"
    by simp
  have "unmarshalPointer coderFields_StandardCiphertext
          (AppendTag 1 BytesType @ AppendBytes (Data sc) @ []) \<lparr>Data = []\<rparr>
        = (case (\<lambda>v m. Inr (m\<lparr>Data := v\<rparr>)) (Data sc) \<lparr>Data = []\<rparr> of
             Inl err \<Rightarrow> Inl err
           | Inr m' \<Rightarrow> unmarshalPointer coderFields_StandardCiphertext [] m')"
  proof (rule unmarshalPointer_field)
    show "coderFields_StandardCiphertext 1 = Some (\<lambda>v m. Inr (m\<lparr>Data := v\<rparr>))"
      by (simp add: coderFields_StandardCiphertext_def)
    show "1 \<le> (1::nat)"
      by simp
    show "1 \<le> MaxValidNumber"
      by (simp add: MaxValidNumber_def)
    show "length (Data sc) < 2 ^ 64"
      by (rule len)
  qed
  with False show ?thesis
    by (simp add: marshal_StandardCiphertext_def unmarshalPointer_Nil)
qed

lemma length_marshal_StandardCiphertext:
  assumes "length (Data sc) < 2 ^ 63"
  shows "length (marshal_StandardCiphertext sc) < 2 ^ 64"
proof -
  have "length (AppendTag 1 BytesType) = 1"
    by (simp add: AppendTag_def BytesType_def AppendVarint_small)
  with length_AppendBytes [OF assms]
  have "length (marshal_StandardCiphertext sc) \<le> 10 + length (Data sc)"
    by (simp add: marshal_StandardCiphertext_def)
  with assms show ?thesis
    by simp
qed

lemma Marshal_error: "Marshal m = Inl e \<Longrightarrow> e = InvalidUTF8"
  by (auto simp: Marshal_def Let_def split: if_splits)

lemma Marshal_succeeds:
  "ValidString (SharedInfo_pb m) \<Longrightarrow> ValidString (KeyId m) \<Longrightarrow> \<exists>b. Marshal m = Inr b"
  by (simp add: Marshal_def Let_def)

lemma Unmarshal_Marshal:
  assumes "ValidString (SharedInfo_pb r)" "ValidString (KeyId r)"
    and "length (SharedInfo_pb r) < 2 ^ 63" "length (KeyId r) < 2 ^ 63"
    and "case Payload_pb r of None \<Rightarrow> True | Some sc \<Rightarrow> length (Data sc) < 2 ^ 63"
  shows "\<exists>b. Marshal r = Inr b \<and> Unmarshal b = Inr r"
proof -
  define f1 where "f1 = (case Payload_pb r of
      None \<Rightarrow> []
    | Some sc \<Rightarrow> AppendTag 1 BytesType @ AppendBytes (marshal_StandardCiphertext sc))"
  define f2 where "f2 = (if SharedInfo_pb r = [] then []
    else AppendTag 2 BytesType @ AppendBytes (SharedInfo_pb r))"
  define f3 where "f3 = (if KeyId r = [] then []
    else AppendTag 3 BytesType @ AppendBytes (KeyId r))"
  have marshal: "Marshal r = Inr (f1 @ f2 @ f3)"
    by (simp add: Marshal_def Let_def assms(1,2) f1_def f2_def f3_def)
  have s1: "unmarshalPointer coderFields_AggregatablePayload (f1 @ b) m
      = unmarshalPointer coderFields_AggregatablePayload b (m\<lparr>Payload_pb := Payload_pb r\<rparr>)"
    if "Payload_pb m = None" for b m
  proof (cases "Payload_pb r")
    case None
    from that have "m\<lparr>Payload_pb := None\<rparr> = m"
      by (cases m) simp
    with None show ?thesis
      by (simp add: f1_def)
  next
    case (Some sc)
    with assms(5) have sc: "length (Data sc) < 2 ^ 63"
      by simp
    have "unmarshalPointer coderFields_AggregatablePayload
        (AppendTag 1 BytesType @ AppendBytes (marshal_StandardCiphertext sc) @ b) m
      = (case (\<lambda>v m.
          case unmarshalPointer coderFields_StandardCiphertext v
                 (case Payload_pb m of None \<Rightarrow> \<lparr>Data = []\<rparr> | Some sc \<Rightarrow> sc) of
            Inl err \<Rightarrow> Inl err
          | Inr sc \<Rightarrow> Inr (m\<lparr>Payload_pb := Some sc\<rparr>)) (marshal_StandardCiphertext sc) m of
           Inl err \<Rightarrow> Inl err
         | Inr m' \<Rightarrow> unmarshalPointer coderFields_AggregatablePayload b m')"
    proof (rule unmarshalPointer_field)
      show "coderFields_AggregatablePayload 1 = Some (\<lambda>v m.
          case unmarshalPointer coderFields_StandardCiphertext v
                 (case Payload_pb m of None \<Rightarrow> \<lparr>Data = []\<rparr> | Some sc \<Rightarrow> sc) of
            Inl err \<Rightarrow> Inl err
          | Inr sc \<Rightarrow> Inr (m\<lparr>Payload_pb := Some sc\<rparr>))"
        by (simp add: coderFields_AggregatablePayload_def)
      show "1 \<le> (1::nat)"
        by simp
      show "1 \<le> MaxValidNumber"
        by (simp add: MaxValidNumber_def)
      show "length (marshal_StandardCiphertext sc) < 2 ^ 64"
        using sc by (rule length_marshal_StandardCiphertext)
    qed
    with that Some unmarshal_marshal_StandardCiphertext [OF sc] show ?thesis
      by (simp add: f1_def)
  qed
  have s2: "unmarshalPointer coderFields_AggregatablePayload (f2 @ b) m
      = unmarshalPointer coderFields_AggregatablePayload b (m\<lparr>SharedInfo_pb := SharedInfo_pb r\<rparr>)"
    if "SharedInfo_pb m = []" for b m
  proof (cases "SharedInfo_pb r = []")
    case True
    from that have "m\<lparr>SharedInfo_pb := []\<rparr> = m"
      by (cases m) simp
    with True show ?thesis
      by (simp add: f2_def)
  next
    case False
    have "unmarshalPointer coderFields_AggregatablePayload
        (AppendTag 2 BytesType @ AppendBytes (SharedInfo_pb r) @ b) m
      = (case (\<lambda>v m. if \<not> ValidString v then Inl InvalidUTF8 else Inr (m\<lparr>SharedInfo_pb := v\<rparr>))
                (SharedInfo_pb r) m of
           Inl err \<Rightarrow> Inl err
         | Inr m' \<Rightarrow> unmarshalPointer coderFields_AggregatablePayload b m')"
    proof (rule unmarshalPointer_field)
      show "coderFields_AggregatablePayload 2
          = Some (\<lambda>v m. if \<not> ValidString v then Inl InvalidUTF8 else Inr (m\<lparr>SharedInfo_pb := v\<rparr>))"
        by (simp add: coderFields_AggregatablePayload_def)
      show "1 \<le> (2::nat)"
        by simp
      show "2 \<le> MaxValidNumber"
        by (simp add: MaxValidNumber_def)
      show "length (SharedInfo_pb r) < 2 ^ 64"
        using assms(3) by simp
    qed
    with False assms(1) show ?thesis
      by (simp add: f2_def)
  qed
  have s3: "unmarshalPointer coderFields_AggregatablePayload (f3 @ b) m
      = unmarshalPointer coderFields_AggregatablePayload b (m\<lparr>KeyId := KeyId r\<rparr>)"
    if "KeyId m = []" for b m
  proof (cases "KeyId r = []")
    case True
    from that have "m\<lparr>KeyId := []\<rparr> = m"
      by (cases m) simp
    with True show ?thesis
      by (simp add: f3_def)
  next
    case False
    have "unmarshalPointer coderFields_AggregatablePayload
        (AppendTag 3 BytesType @ AppendBytes (KeyId r) @ b) m
      = (case (\<lambda>v m. if \<not> ValidString v then Inl InvalidUTF8 else Inr (m\<lparr>KeyId := v\<rparr>))
                (KeyId r) m of
           Inl err \<Rightarrow> Inl err
         | Inr m' \<Rightarrow> unmarshalPointer coderFields_AggregatablePayload b m')"
    proof (rule unmarshalPointer_field)
      show "coderFields_AggregatablePayload 3
          = Some (\<lambda>v m. if \<not> ValidString v then Inl InvalidUTF8 else Inr (m\<lparr>KeyId := v\<rparr>))"
        by (simp add: coderFields_AggregatablePayload_def)
      show "1 \<le> (3::nat)"
        by simp
      show "3 \<le> MaxValidNumber"
        by (simp add: MaxValidNumber_def)
      show "length (KeyId r) < 2 ^ 64"
        using assms(4) by simp
    qed
    with False assms(2) show ?thesis
      by (simp add: f3_def)
  qed
  have "Unmarshal (f1 @ f2 @ f3 @ []) = Inr r"
    unfolding Unmarshal_def
    by (subst s1, simp, subst s2, simp, subst s3, simp, simp add: unmarshalPointer_Nil)
  with marshal show ?thesis
    by simp
qed

lemma Serialize_error: "SerializeAggregatablePayload m = Inl e \<Longrightarrow> e = InvalidUTF8"
  by (auto simp: SerializeAggregatablePayload_def split: sum.splits dest: Marshal_error)

lemma Serialize_succeeds:
  "ValidString (SharedInfo_pb m) \<Longrightarrow> ValidString (KeyId m)
   \<Longrightarrow> \<exists>v. SerializeAggregatablePayload m = Inr v"
  using Marshal_succeeds [of m] by (auto simp: SerializeAggregatablePayload_def)

section \<open>Facts about decimal formatting\<close>

text \<open>
  The decimal form of a number determines the number, so distinct indices have distinct
  keys.
\<close>

lemma formatBits_small: "u < 10 \<Longrightarrow> formatBits u = [byte (48 + u)]"
  by (subst formatBits.simps) simp

lemma Itoa_digits:
  "Itoa 0 = ''0''" "Itoa 1 = ''1''" "Itoa 2 = ''2''" "Itoa 3 = ''3''"
  by (simp_all add: Itoa_def formatBits_small byte_eq_iff)

lemma formatBits_value: "foldl (\<lambda>a c. 10 * a + (uint c - 48)) 0 (formatBits u) = u"
proof (induction u rule: formatBits.induct)
  case (1 u)
  show ?case
  proof (cases "u < 10")
    case True
    then show ?thesis by (simp add: formatBits_small)
  next
    case False
    then have "formatBits u = formatBits (u div 10) @ [byte (48 + u mod 10)]"
      by (subst formatBits.simps) simp
    moreover have "(48 + u mod 10) mod 256 = 48 + u mod 10"
      by (rule mod_less) (simp add: less_le_trans [OF mod_less_divisor])
    ultimately show ?thesis
      using "1.IH" [OF False] by simp
  qed
qed

lemma Itoa_int_inject: "Itoa (int i) = Itoa (int j) \<longleftrightarrow> i = j"
proof
  assume "Itoa (int i) = Itoa (int j)"
  then have "formatBits i = formatBits j"
    by (simp add: Itoa_def)
  then have "foldl (\<lambda>a c. 10 * a + (uint c - 48)) 0 (formatBits i)
           = foldl (\<lambda>a c. 10 * a + (uint c - 48)) 0 (formatBits j)"
    by simp
  then show "i = j"
    by (simp only: formatBits_value)
qed simp

lemma inj_on_Itoa_int: "inj_on (\<lambda>i. Itoa (int i)) A"
  by (rule inj_onI) (simp add: Itoa_int_inject)

section \<open>The loop of the extraction\<close>

text \<open>
  The loop succeeds exactly when every entry is present and decodes, and then appends
  one record for each entry; it fails by a panic on a missing entry or by the decoder's
  error; on the encrypted channel it does not read the cleartext fields.
\<close>

lemma extract_loop_Inr_iff:
  "extract_loop uc si ps out = Inr recs \<longleftrightarrow>
     (\<exists>new. recs = out @ new \<and>
        list_all2 (\<lambda>e rec. \<exists>p data. e = Some p
            \<and> DecodeString (if uc then DebugCleartextPayload p else Payload p) = Inr data
            \<and> rec = \<lparr>Payload_pb = Some \<lparr>Data = data\<rparr>, SharedInfo_pb = si,
                       KeyId = (if uc then [] else KeyID p)\<rparr>) ps new)"
proof (induction ps arbitrary: out)
  case Nil
  show ?case by auto
next
  case (Cons e ps)
  show ?case
  proof (cases e)
    case None
    then show ?thesis by (simp add: list_all2_Cons1)
  next
    case (Some p)
    show ?thesis
    proof (cases "DecodeString (if uc then DebugCleartextPayload p else Payload p)")
      case (Inl err)
      with Some show ?thesis by (auto simp: list_all2_Cons1)
    next
      case (Inr data)
      with Some Cons.IH show ?thesis by (auto simp: list_all2_Cons1)
    qed
  qed
qed

lemma ExtractPayloads_Inr:
  assumes "ExtractPayloadsFromAggregatableReport r useCleartext = Inr recs"
  shows "length recs = length (AggregationServicePayloads r)
    \<and> (\<forall>i<length recs. \<exists>p data.
          AggregationServicePayloads r ! i = Some p
          \<and> DecodeString (if useCleartext then DebugCleartextPayload p else Payload p) = Inr data
          \<and> recs ! i = \<lparr>Payload_pb = Some \<lparr>Data = data\<rparr>, SharedInfo_pb = SharedInfo r,
                        KeyId = (if useCleartext then [] else KeyID p)\<rparr>)"
proof -
  from assms have "list_all2 (\<lambda>e rec. \<exists>p data. e = Some p
      \<and> DecodeString (if useCleartext then DebugCleartextPayload p else Payload p) = Inr data
      \<and> rec = \<lparr>Payload_pb = Some \<lparr>Data = data\<rparr>, SharedInfo_pb = SharedInfo r,
                 KeyId = (if useCleartext then [] else KeyID p)\<rparr>)
    (AggregationServicePayloads r) recs"
    by (simp add: ExtractPayloadsFromAggregatableReport_def extract_loop_Inr_iff)
  then show ?thesis
    by (simp add: list_all2_conv_all_nth)
qed

lemma extract_loop_succeeds:
  "(\<forall>e \<in> set ps. \<exists>p data. e = Some p
       \<and> DecodeString (if uc then DebugCleartextPayload p else Payload p) = Inr data)
   \<Longrightarrow> \<exists>recs. extract_loop uc si ps out = Inr recs"
  by (induction ps arbitrary: out) auto

lemma extract_loop_error:
  "extract_loop uc si ps out = Inl e \<Longrightarrow> e = Panic_nil_dereference \<or> (\<exists>n. e = CorruptInputError n)"
proof (induction ps arbitrary: out)
  case Nil
  then show ?case by simp
next
  case (Cons a ps)
  then show ?case
    by (cases a) (auto simp: DecodeString_def split: sum.splits if_splits dest: decode_error)
qed

lemma extract_loop_encrypted_ignores_cleartext:
  "map (map_option (\<lambda>p. p\<lparr>DebugCleartextPayload := []\<rparr>)) ps'
     = map (map_option (\<lambda>p. p\<lparr>DebugCleartextPayload := []\<rparr>)) ps
   \<Longrightarrow> extract_loop False si ps' out = extract_loop False si ps out"
proof (induction ps arbitrary: ps' out)
  case Nil
  then show ?case by simp
next
  case (Cons e ps)
  from Cons.prems obtain e' ps1 where ps': "ps' = e' # ps1"
    and e: "map_option (\<lambda>p. p\<lparr>DebugCleartextPayload := []\<rparr>) e'
            = map_option (\<lambda>p. p\<lparr>DebugCleartextPayload := []\<rparr>) e"
    and rest: "map (map_option (\<lambda>p. p\<lparr>DebugCleartextPayload := []\<rparr>)) ps1
            = map (map_option (\<lambda>p. p\<lparr>DebugCleartextPayload := []\<rparr>)) ps"
    by (cases ps') auto
  show ?case
  proof (cases e)
    case None
    with e have "e' = None" by simp
    with None ps' show ?thesis by simp
  next
    case (Some p)
    with e obtain p' where e': "e' = Some p'"
      and pp: "p'\<lparr>DebugCleartextPayload := []\<rparr> = p\<lparr>DebugCleartextPayload := []\<rparr>"
      by (cases e') auto
    from pp have "Payload (p'\<lparr>DebugCleartextPayload := []\<rparr>) = Payload (p\<lparr>DebugCleartextPayload := []\<rparr>)"
      and "KeyID (p'\<lparr>DebugCleartextPayload := []\<rparr>) = KeyID (p\<lparr>DebugCleartextPayload := []\<rparr>)"
      by simp_all
    then have same: "Payload p' = Payload p" "KeyID p' = KeyID p"
      by simp_all
    show ?thesis
      using Some e' ps' same Cons.IH [OF rest] by (simp split: sum.splits)
  qed
qed

section \<open>The loop of the conversion\<close>

text \<open>
  The loop stores the serialization of the record at position \<open>i\<close> under the decimal
  form of \<open>i\<close> and stops at the first record whose serialization fails.
\<close>

lemma convert_loop_Inr:
  assumes "convert_loop k recs m = Inr m'"
  shows "(\<forall>i<length recs. \<exists>v. SerializeAggregatablePayload (recs ! i) = Inr v
            \<and> m' (Itoa (int (k + i))) = Some v)
       \<and> (\<forall>key. (\<forall>i<length recs. key \<noteq> Itoa (int (k + i))) \<longrightarrow> m' key = m key)"
  using assms
proof (induction recs arbitrary: k m)
  case Nil
  then show ?case by simp
next
  case (Cons rec recs)
  from Cons.prems obtain v where v: "SerializeAggregatablePayload rec = Inr v"
    and rest: "convert_loop (Suc k) recs (m(Itoa (int k) \<mapsto> v)) = Inr m'"
    by (auto split: sum.splits)
  note IH = Cons.IH [OF rest]
  have fresh: "\<forall>i<length recs. Itoa (int k) \<noteq> Itoa (int (Suc k + i))"
    by (simp only: Itoa_int_inject) simp
  with IH have head: "m' (Itoa (int k)) = Some v"
    by simp
  have "\<exists>w. SerializeAggregatablePayload ((rec # recs) ! i) = Inr w
            \<and> m' (Itoa (int (k + i))) = Some w" if "i < length (rec # recs)" for i
  proof (cases i)
    case 0
    with v head show ?thesis by simp
  next
    case (Suc j)
    with that IH show ?thesis by simp
  qed
  moreover have "m' key = m key" if "\<forall>i<length (rec # recs). key \<noteq> Itoa (int (k + i))" for key
  proof -
    have "0 < length (rec # recs)"
      by simp
    with that have "key \<noteq> Itoa (int (k + 0))"
      by blast
    then have "key \<noteq> Itoa (int k)"
      by simp
    moreover have "\<forall>i<length recs. key \<noteq> Itoa (int (Suc k + i))"
    proof (intro allI impI)
      fix i
      assume "i < length recs"
      then have "Suc i < length (rec # recs)"
        by simp
      with that have "key \<noteq> Itoa (int (k + Suc i))"
        by blast
      then show "key \<noteq> Itoa (int (Suc k + i))"
        by simp
    qed
    ultimately show ?thesis
      using IH by simp
  qed
  ultimately show ?case by blast
qed

lemma convert_loop_dom:
  assumes "convert_loop k recs m = Inr m'"
  shows "dom m' = dom m \<union> (\<lambda>i. Itoa (int (k + i))) ` {..<length recs}"
proof -
  note c = convert_loop_Inr [OF assms]
  show ?thesis
  proof (rule set_eqI)
    fix key
    show "key \<in> dom m' \<longleftrightarrow> key \<in> dom m \<union> (\<lambda>i. Itoa (int (k + i))) ` {..<length recs}"
    proof (cases "\<exists>i<length recs. key = Itoa (int (k + i))")
      case True
      with c show ?thesis by auto
    next
      case False
      with c have "m' key = m key" by blast
      with False show ?thesis by (auto simp: dom_def)
    qed
  qed
qed

lemma convert_loop_first_error:
  "i < length recs \<Longrightarrow> SerializeAggregatablePayload (recs ! i) = Inl e
   \<Longrightarrow> (\<forall>j<i. \<exists>v. SerializeAggregatablePayload (recs ! j) = Inr v)
   \<Longrightarrow> convert_loop k recs m = Inl e"
proof (induction recs arbitrary: i k m)
  case Nil
  then show ?case by simp
next
  case (Cons rec recs)
  show ?case
  proof (cases i)
    case 0
    with Cons.prems show ?thesis by simp
  next
    case (Suc i')
    with Cons.prems obtain v where v: "SerializeAggregatablePayload rec = Inr v"
      by fastforce
    have "convert_loop (Suc k) recs (m(Itoa (int k) \<mapsto> v)) = Inl e"
    proof (rule Cons.IH [of i'])
      show "i' < length recs" using Cons.prems Suc by simp
      show "SerializeAggregatablePayload (recs ! i') = Inl e" using Cons.prems Suc by simp
      show "\<forall>j<i'. \<exists>v. SerializeAggregatablePayload (recs ! j) = Inr v"
        using Cons.prems(3) Suc by fastforce
    qed
    with v show ?thesis by simp
  qed
qed

lemma convert_loop_Inl:
  "convert_loop k recs m = Inl e \<Longrightarrow>
     \<exists>i<length recs. SerializeAggregatablePayload (recs ! i) = Inl e
        \<and> (\<forall>j<i. \<exists>v. SerializeAggregatablePayload (recs ! j) = Inr v)"
proof (induction recs arbitrary: k m)
  case Nil
  then show ?case by simp
next
  case (Cons rec recs)
  show ?case
  proof (cases "SerializeAggregatablePayload rec")
    case (Inl err)
    with Cons.prems have "err = e" by simp
    with Inl have "SerializeAggregatablePayload ((rec # recs) ! 0) = Inl e
        \<and> (\<forall>j<0. \<exists>v. SerializeAggregatablePayload ((rec # recs) ! j) = Inr v)"
      by simp
    then show ?thesis by blast
  next
    case (Inr v)
    with Cons.prems have "convert_loop (Suc k) recs (m(Itoa (int k) \<mapsto> v)) = Inl e"
      by simp
    from Cons.IH [OF this] obtain i where i: "i < length recs"
      "SerializeAggregatablePayload (recs ! i) = Inl e"
      "\<forall>j<i. \<exists>v. SerializeAggregatablePayload (recs ! j) = Inr v"
      by blast
    have "\<exists>w. SerializeAggregatablePayload ((rec # recs) ! j) = Inr w" if "j < Suc i" for j
      using that Inr i(3) by (cases j) auto
    with i(1,2) have "Suc i < length (rec # recs)
        \<and> SerializeAggregatablePayload ((rec # recs) ! Suc i) = Inl e
        \<and> (\<forall>j<Suc i. \<exists>v. SerializeAggregatablePayload ((rec # recs) ! j) = Inr v)"
      by simp
    then show ?thesis by blast
  qed
qed

lemma convert_loop_succeeds:
  "(\<forall>rec \<in> set recs. \<exists>v. SerializeAggregatablePayload rec = Inr v)
   \<Longrightarrow> \<exists>m'. convert_loop k recs m = Inr m'"
  by (induction recs arbitrary: k m) auto

lemma convertReport_Inr:
  assumes "convertReport r useCleartext = Inr m"
  shows "\<exists>recs. ExtractPayloadsFromAggregatableReport r useCleartext = Inr recs
      \<and> length recs = length (AggregationServicePayloads r)
      \<and> dom m = (\<lambda>i. Itoa (int i)) ` {..<length recs}
      \<and> (\<forall>i<length recs. \<exists>v. SerializeAggregatablePayload (recs ! i) = Inr v
            \<and> m (Itoa (int i)) = Some v)"
proof -
  from assms obtain recs where recs: "ExtractPayloadsFromAggregatableReport r useCleartext = Inr recs"
    and loop: "convert_loop 0 recs Map.empty = Inr m"
    by (auto simp: convertReport_def split: sum.splits)
  from ExtractPayloads_Inr [OF recs] have "length recs = length (AggregationServicePayloads r)"
    by simp
  moreover from convert_loop_dom [OF loop] have "dom m = (\<lambda>i. Itoa (int i)) ` {..<length recs}"
    by simp
  moreover from convert_loop_Inr [OF loop]
  have "\<forall>i<length recs. \<exists>v. SerializeAggregatablePayload (recs ! i) = Inr v
            \<and> m (Itoa (int i)) = Some v"
    by simp
  ultimately show ?thesis
    using recs by blast
qed

lemma convertReport_succeeds:
  assumes "ValidString (SharedInfo r)"
    and "\<forall>e \<in> set (AggregationServicePayloads r). \<exists>p data. e = Some p
          \<and> DecodeString (if useCleartext then DebugCleartextPayload p else Payload p) = Inr data
          \<and> (\<not> useCleartext \<longrightarrow> ValidString (KeyID p))"
  shows "\<exists>m. convertReport r useCleartext = Inr m
          \<and> dom m = (\<lambda>i. Itoa (int i)) ` {..<length (AggregationServicePayloads r)}
          \<and> card (dom m) = length (AggregationServicePayloads r)"
proof -
  from assms(2) have "\<forall>e \<in> set (AggregationServicePayloads r). \<exists>p data. e = Some p
          \<and> DecodeString (if useCleartext then DebugCleartextPayload p else Payload p) = Inr data"
    by blast
  from extract_loop_succeeds [OF this] obtain recs
    where recs: "ExtractPayloadsFromAggregatableReport r useCleartext = Inr recs"
    unfolding ExtractPayloadsFromAggregatableReport_def by blast
  note ex = ExtractPayloads_Inr [OF recs]
  have "\<exists>v. SerializeAggregatablePayload rec = Inr v" if "rec \<in> set recs" for rec
  proof -
    from that obtain i where i: "i < length recs" "recs ! i = rec"
      by (auto simp: in_set_conv_nth)
    with ex obtain p data where p: "AggregationServicePayloads r ! i = Some p"
      and rec: "rec = \<lparr>Payload_pb = Some \<lparr>Data = data\<rparr>, SharedInfo_pb = SharedInfo r,
                        KeyId = (if useCleartext then [] else KeyID p)\<rparr>"
      by fastforce
    from i ex have "AggregationServicePayloads r ! i \<in> set (AggregationServicePayloads r)"
      by simp
    with assms(2) p have "\<not> useCleartext \<longrightarrow> ValidString (KeyID p)"
      by fastforce
    then have "ValidString (KeyId rec)"
      by (simp add: rec)
    moreover have "ValidString (SharedInfo_pb rec)"
      using assms(1) by (simp add: rec)
    ultimately show ?thesis
      by (rule Serialize_succeeds [rotated])
  qed
  then have "\<exists>m. convert_loop 0 recs Map.empty = Inr m"
    by (intro convert_loop_succeeds) blast
  then obtain m where m: "convertReport r useCleartext = Inr m"
    using recs by (auto simp: convertReport_def)
  from convertReport_Inr [OF m] recs
  have d: "dom m = (\<lambda>i. Itoa (int i)) ` {..<length (AggregationServicePayloads r)}"
    by auto
  then have "card (dom m) = length (AggregationServicePayloads r)"
    by (simp add: card_image inj_on_Itoa_int)
  with m d show ?thesis
    by blast
qed

lemma convertReport_error:
  assumes "convertReport r useCleartext = Inl e"
  shows "e = Panic_nil_dereference \<or> e = InvalidUTF8 \<or> (\<exists>n. e = CorruptInputError n)"
proof (cases "ExtractPayloadsFromAggregatableReport r useCleartext")
  case (Inl err)
  with assms have "err = e"
    by (simp add: convertReport_def)
  with Inl show ?thesis
    using extract_loop_error [of useCleartext "SharedInfo r" "AggregationServicePayloads r" "[]" e]
    by (auto simp: ExtractPayloadsFromAggregatableReport_def)
next
  case (Inr recs)
  with assms have "convert_loop 0 recs Map.empty = Inl e"
    by (simp add: convertReport_def)
  from convert_loop_Inl [OF this] show ?thesis
    by (auto dest: Serialize_error)
qed

section \<open>The sample reports, evaluated\<close>

text \<open>The values of the functions on the sample reports, computed by rewriting.\<close>

lemmas base64_eval =
  DecodeString_def decodeMap_def encodeStd_def padChar_def quantum_def encode6_def byte_eq_iff Let_def

lemma DecodeString_samples:
  "DecodeString [] = Inr []"
  "DecodeString ''AQ=='' = Inr [CHR 0x01]"
  "DecodeString ''Ag=='' = Inr [CHR 0x02]"
  "DecodeString ''Aw=='' = Inr [CHR 0x03]"
  "DecodeString ''!!!'' = Inl (CorruptInputError 0)"
  by (simp_all add: base64_eval)

lemmas sample_defs =
  scenario_report_def two_party_report_def report_of_def scenario_payload_def debug_payload_def

lemmas proto_eval =
  SerializeAggregatablePayload_def Marshal_def marshal_StandardCiphertext_def AppendTag_def
  AppendBytes_def AppendVarint_small BytesType_def

lemma ValidString_samples:
  "ValidString ''SI''" "ValidString ''k1''" "ValidString ''k2''" "\<not> ValidString [CHR 0xFF]"
  by (simp_all add: ValidString.simps first_def)

lemma Serialize_samples:
  "SerializeAggregatablePayload
     \<lparr>Payload_pb = Some \<lparr>Data = [CHR 0x01]\<rparr>, SharedInfo_pb = ''SI'', KeyId = ''k1''\<rparr>
   = Inr ''CgMKAQESAlNJGgJrMQ==''"
  "SerializeAggregatablePayload
     \<lparr>Payload_pb = Some \<lparr>Data = []\<rparr>, SharedInfo_pb = ''SI'', KeyId = []\<rparr>
   = Inr ''CgASAlNJ''"
  by (simp_all add: proto_eval ValidString_samples base64_eval)

lemma scenario_extract:
  "ExtractPayloadsFromAggregatableReport scenario_report False
     = Inr [\<lparr>Payload_pb = Some \<lparr>Data = [CHR 0x01]\<rparr>, SharedInfo_pb = ''SI'', KeyId = ''k1''\<rparr>]"
  "ExtractPayloadsFromAggregatableReport scenario_report True
     = Inr [\<lparr>Payload_pb = Some \<lparr>Data = []\<rparr>, SharedInfo_pb = ''SI'', KeyId = []\<rparr>]"
  by (simp_all add: ExtractPayloadsFromAggregatableReport_def sample_defs DecodeString_samples)

lemma scenario_maps:
  "GetSerializedEncryptedRecords scenario_report = Inr [''0'' \<mapsto> ''CgMKAQESAlNJGgJrMQ=='']"
  "GetSerializedCleartextRecords scenario_report = Inr [''0'' \<mapsto> ''CgASAlNJ'']"
  by (simp_all add: GetSerializedEncryptedRecords_def GetSerializedCleartextRecords_def
      convertReport_def scenario_extract Serialize_samples Itoa_digits)

lemma two_party_extract:
  "ExtractPayloadsFromAggregatableReport two_party_report False
     = Inr [\<lparr>Payload_pb = Some \<lparr>Data = [CHR 0x01]\<rparr>, SharedInfo_pb = ''SI'', KeyId = ''k1''\<rparr>,
            \<lparr>Payload_pb = Some \<lparr>Data = [CHR 0x02]\<rparr>, SharedInfo_pb = ''SI'', KeyId = ''k2''\<rparr>]"
  "ExtractPayloadsFromAggregatableReport two_party_report True
     = Inr [\<lparr>Payload_pb = Some \<lparr>Data = []\<rparr>, SharedInfo_pb = ''SI'', KeyId = []\<rparr>,
            \<lparr>Payload_pb = Some \<lparr>Data = [CHR 0x03]\<rparr>, SharedInfo_pb = ''SI'', KeyId = []\<rparr>]"
  by (simp_all add: ExtractPayloadsFromAggregatableReport_def sample_defs DecodeString_samples)

lemma two_party_maps:
  "GetSerializedEncryptedRecords two_party_report
     = Inr [''0'' \<mapsto> ''CgMKAQESAlNJGgJrMQ=='', ''1'' \<mapsto> ''CgMKAQISAlNJGgJrMg=='']"
  by (simp add: GetSerializedEncryptedRecords_def convertReport_def two_party_extract
      Itoa_digits proto_eval ValidString_samples base64_eval)

lemma three_payload_maps:
  "GetSerializedEncryptedRecords three_payload_report
     = Inr [''0'' \<mapsto> ''CgMKAQESAlNJGgJrMQ=='', ''1'' \<mapsto> ''CgMKAQISAlNJGgJrMg=='',
            ''2'' \<mapsto> ''CgMKAQESAlNJGgJrMQ=='']"
  "GetSerializedCleartextRecords three_payload_report
     = Inr [''0'' \<mapsto> ''CgASAlNJ'', ''1'' \<mapsto> ''CgMKAQMSAlNJ'', ''2'' \<mapsto> ''CgASAlNJ'']"
  by (simp_all add: GetSerializedEncryptedRecords_def GetSerializedCleartextRecords_def
      convertReport_def ExtractPayloadsFromAggregatableReport_def three_payload_report_def
      sample_defs DecodeString_samples Itoa_digits proto_eval ValidString_samples base64_eval)

lemma bad_base64_extract:
  "ExtractPayloadsFromAggregatableReport bad_base64_report False = Inl (CorruptInputError 0)"
  by (simp add: ExtractPayloadsFromAggregatableReport_def bad_base64_report_def sample_defs
      DecodeString_samples)

lemma bad_key_extract:
  "ExtractPayloadsFromAggregatableReport bad_key_report False
     = Inr [\<lparr>Payload_pb = Some \<lparr>Data = [CHR 0x01]\<rparr>, SharedInfo_pb = ''SI'', KeyId = ''k1''\<rparr>,
            \<lparr>Payload_pb = Some \<lparr>Data = [CHR 0x02]\<rparr>, SharedInfo_pb = ''SI'',
              KeyId = [CHR 0xFF]\<rparr>]"
  by (simp add: ExtractPayloadsFromAggregatableReport_def bad_key_report_def sample_defs
      DecodeString_samples)

lemma bad_key_serialize:
  "SerializeAggregatablePayload
     \<lparr>Payload_pb = Some \<lparr>Data = [CHR 0x02]\<rparr>, SharedInfo_pb = ''SI'', KeyId = [CHR 0xFF]\<rparr>
   = Inl InvalidUTF8"
  by (simp add: proto_eval ValidString_samples)

section \<open>Protocol selection and validation\<close>

text \<open>
  C1. A report with one payload uses the one-party protocol and one with two payloads
  the mpc protocol, and both are valid. For any other number of payloads
  \<open>GetProtocol\<close> and \<open>Validate\<close> both return the error that reports the number found
  (the payload-count error; the two messages differ in their wording only).
\<close>

theorem C1_protocol_by_payload_count:
  "(length (AggregationServicePayloads r) = 1 \<longrightarrow>
      GetProtocol r = Inr ''one-party'' \<and> Validate r = None)
   \<and> (length (AggregationServicePayloads r) = 2 \<longrightarrow>
      GetProtocol r = Inr ''mpc'' \<and> Validate r = None)
   \<and> (length (AggregationServicePayloads r) \<noteq> 1 \<and> length (AggregationServicePayloads r) \<noteq> 2 \<longrightarrow>
      GetProtocol r =
        Inl (Errorf (''expect 1 or 2 payloads, got ''
               @ Itoa (int (length (AggregationServicePayloads r)))))
      \<and> Validate r =
        Some (Errorf (''expected one or two payloads, got ''
                @ Itoa (int (length (AggregationServicePayloads r))))))"
  by (simp add: GetProtocol_def Validate_def onepartyProtocol_def mpcProtocol_def)

theorem C1_protocol_by_payload_count_witness:
  "GetProtocol scenario_report = Inr ''one-party''
   \<and> Validate scenario_report = None
   \<and> GetProtocol (report_of ''SI'' [Some scenario_payload, Some scenario_payload]) = Inr ''mpc''
   \<and> Validate (report_of ''SI'' [Some scenario_payload, Some scenario_payload]) = None
   \<and> GetProtocol (report_of ''SI'' []) = Inl (Errorf ''expect 1 or 2 payloads, got 0'')
   \<and> Validate (report_of ''SI'' []) = Some (Errorf ''expected one or two payloads, got 0'')
   \<and> GetProtocol (report_of ''SI'' [None, None, None])
       = Inl (Errorf ''expect 1 or 2 payloads, got 3'')
   \<and> Validate (report_of ''SI'' [None, None, None])
       = Some (Errorf ''expected one or two payloads, got 3'')"
  using C1_protocol_by_payload_count [of scenario_report]
    C1_protocol_by_payload_count [of "report_of ''SI'' [Some scenario_payload, Some scenario_payload]"]
    C1_protocol_by_payload_count [of "report_of ''SI'' []"]
    C1_protocol_by_payload_count [of "report_of ''SI'' [None, None, None]"]
  by (simp add: scenario_report_def report_of_def Itoa_digits)

section \<open>The record codec\<close>

text \<open>
  C2. A record is well formed when its shared info and its key identifier are valid
  UTF-8, which is what a proto3 string field holds; the lengths of its three fields are
  below \<open>2 ^ 63\<close>, as the length of every Go string and slice is. Serializing a
  well-formed record succeeds, and deserializing the result succeeds and gives the
  record back: the same ciphertext bytes, the same shared info, the same key
  identifier.
\<close>

theorem C2_serialize_deserialize_roundtrip:
  assumes "ValidString (SharedInfo_pb r)" "ValidString (KeyId r)"
    and "length (SharedInfo_pb r) < 2 ^ 63" "length (KeyId r) < 2 ^ 63"
    and "case Payload_pb r of None \<Rightarrow> True | Some sc \<Rightarrow> length (Data sc) < 2 ^ 63"
  shows "\<exists>line. SerializeAggregatablePayload r = Inr line
           \<and> DeserializeAggregatablePayload line = Inr r"
proof -
  from Unmarshal_Marshal [OF assms] obtain b where "Marshal r = Inr b" "Unmarshal b = Inr r"
    by blast
  then show ?thesis
    by (simp add: SerializeAggregatablePayload_def DeserializeAggregatablePayload_def
        DecodeString_EncodeToString)
qed

theorem C2_serialize_deserialize_roundtrip_witness:
  "ValidString ''SI'' \<and> ValidString ''k1''
   \<and> SerializeAggregatablePayload
        \<lparr>Payload_pb = Some \<lparr>Data = [CHR 0x01]\<rparr>, SharedInfo_pb = ''SI'', KeyId = ''k1''\<rparr>
       = Inr ''CgMKAQESAlNJGgJrMQ==''
   \<and> DeserializeAggregatablePayload ''CgMKAQESAlNJGgJrMQ==''
       = Inr \<lparr>Payload_pb = Some \<lparr>Data = [CHR 0x01]\<rparr>, SharedInfo_pb = ''SI'', KeyId = ''k1''\<rparr>"
proof -
  have "\<exists>line. SerializeAggregatablePayload
        \<lparr>Payload_pb = Some \<lparr>Data = [CHR 0x01]\<rparr>, SharedInfo_pb = ''SI'', KeyId = ''k1''\<rparr>
          = Inr line
      \<and> DeserializeAggregatablePayload line
          = Inr \<lparr>Payload_pb = Some \<lparr>Data = [CHR 0x01]\<rparr>, SharedInfo_pb = ''SI'', KeyId = ''k1''\<rparr>"
    by (rule C2_serialize_deserialize_roundtrip) (simp_all add: ValidString_samples)
  then have "DeserializeAggregatablePayload ''CgMKAQESAlNJGgJrMQ==''
       = Inr \<lparr>Payload_pb = Some \<lparr>Data = [CHR 0x01]\<rparr>, SharedInfo_pb = ''SI'', KeyId = ''k1''\<rparr>"
    by (simp add: Serialize_samples)
  then show ?thesis
    by (simp add: ValidString_samples Serialize_samples)
qed

section \<open>Extraction\<close>

text \<open>
  C3. When the extraction succeeds it returns one record for each payload entry, in
  the order of the entries. The record at position \<open>i\<close> carries the bytes decoded from
  the chosen field of the entry at position \<open>i\<close>, the shared info of the report
  unchanged, and a key identifier: empty on the cleartext channel, the \<open>KeyID\<close> of the
  entry on the encrypted channel.
\<close>

theorem C3_extraction_one_record_per_payload:
  assumes "ExtractPayloadsFromAggregatableReport r useCleartext = Inr recs"
  shows "length recs = length (AggregationServicePayloads r)
    \<and> (\<forall>i<length recs. \<exists>p data.
          AggregationServicePayloads r ! i = Some p
          \<and> DecodeString (if useCleartext then DebugCleartextPayload p else Payload p) = Inr data
          \<and> recs ! i = \<lparr>Payload_pb = Some \<lparr>Data = data\<rparr>, SharedInfo_pb = SharedInfo r,
                        KeyId = (if useCleartext then [] else KeyID p)\<rparr>)"
  using assms by (rule ExtractPayloads_Inr)

theorem C3_extraction_one_record_per_payload_witness:
  "ExtractPayloadsFromAggregatableReport two_party_report False
     = Inr [\<lparr>Payload_pb = Some \<lparr>Data = [CHR 0x01]\<rparr>, SharedInfo_pb = ''SI'', KeyId = ''k1''\<rparr>,
            \<lparr>Payload_pb = Some \<lparr>Data = [CHR 0x02]\<rparr>, SharedInfo_pb = ''SI'', KeyId = ''k2''\<rparr>]
   \<and> ExtractPayloadsFromAggregatableReport two_party_report True
     = Inr [\<lparr>Payload_pb = Some \<lparr>Data = []\<rparr>, SharedInfo_pb = ''SI'', KeyId = []\<rparr>,
            \<lparr>Payload_pb = Some \<lparr>Data = [CHR 0x03]\<rparr>, SharedInfo_pb = ''SI'', KeyId = []\<rparr>]
   \<and> length (AggregationServicePayloads two_party_report) = 2"
  using C3_extraction_one_record_per_payload [OF two_party_extract(1)]
    C3_extraction_one_record_per_payload [OF two_party_extract(2)]
  by (simp add: two_party_extract)

section \<open>An empty cleartext field\<close>

text \<open>
  C4, as the claim states it, fails. The only payload of the scenario report has an
  empty cleartext field, and \<open>GetSerializedCleartextRecords\<close> does not fail on it: it
  returns a map whose value under \<^verbatim>\<open>0\<close> is the serialization of a record with no
  payload bytes.
\<close>

theorem C4_empty_cleartext_counterexample:
  "DebugCleartextPayload scenario_payload = []
   \<and> AggregationServicePayloads scenario_report = [Some scenario_payload]
   \<and> \<not> isl (GetSerializedCleartextRecords scenario_report)
   \<and> projr (GetSerializedCleartextRecords scenario_report) ''0'' = Some ''CgASAlNJ''"
  by (simp add: scenario_maps) (simp add: sample_defs)

text \<open>
  C4, amended. The empty string is valid base64 and decodes to no bytes, so a payload
  entry whose cleartext field is empty raises no decoding error.
  \<open>GetSerializedCleartextRecords\<close> succeeds on a report with such an entry whenever
  every entry of the report is present and decodes and the shared info is valid UTF-8;
  and whenever it succeeds, the value of the map at the position of the entry is the
  serialization of the record with no payload bytes, the shared info of the report and
  an empty key identifier.
\<close>

theorem C4_empty_cleartext_is_zero_length_payload:
  assumes "i < length (AggregationServicePayloads r)"
    and "AggregationServicePayloads r ! i = Some p"
    and "DebugCleartextPayload p = []"
  shows "DecodeString (DebugCleartextPayload p) = Inr []
    \<and> (ValidString (SharedInfo r)
        \<and> (\<forall>e \<in> set (AggregationServicePayloads r). \<exists>q data. e = Some q
              \<and> DecodeString (DebugCleartextPayload q) = Inr data)
        \<longrightarrow> (\<exists>m. GetSerializedCleartextRecords r = Inr m))
    \<and> (\<forall>m. GetSerializedCleartextRecords r = Inr m \<longrightarrow>
          (\<exists>v. SerializeAggregatablePayload
                  \<lparr>Payload_pb = Some \<lparr>Data = []\<rparr>, SharedInfo_pb = SharedInfo r, KeyId = []\<rparr>
                = Inr v
              \<and> m (Itoa (int i)) = Some v))"
proof (intro conjI impI allI)
  show dec: "DecodeString (DebugCleartextPayload p) = Inr []"
    by (simp add: assms(3) DecodeString_def)
  {
    assume wf: "ValidString (SharedInfo r)
        \<and> (\<forall>e \<in> set (AggregationServicePayloads r). \<exists>q data. e = Some q
              \<and> DecodeString (DebugCleartextPayload q) = Inr data)"
    then have "\<forall>e \<in> set (AggregationServicePayloads r). \<exists>q data. e = Some q
          \<and> DecodeString (if True then DebugCleartextPayload q else Payload q) = Inr data
          \<and> (\<not> True \<longrightarrow> ValidString (KeyID q))"
      by simp
    with wf convertReport_succeeds [of r True]
    show "\<exists>m. GetSerializedCleartextRecords r = Inr m"
      unfolding GetSerializedCleartextRecords_def by blast
  }
  fix m
  assume "GetSerializedCleartextRecords r = Inr m"
  then have m: "convertReport r True = Inr m"
    by (simp add: GetSerializedCleartextRecords_def)
  from convertReport_Inr [OF m] obtain recs
    where recs: "ExtractPayloadsFromAggregatableReport r True = Inr recs"
      and len: "length recs = length (AggregationServicePayloads r)"
      and vals: "\<forall>i<length recs. \<exists>v. SerializeAggregatablePayload (recs ! i) = Inr v
            \<and> m (Itoa (int i)) = Some v"
    by blast
  from assms(1) len have i: "i < length recs"
    by simp
  with ExtractPayloads_Inr [OF recs] assms(2) obtain data
    where data: "DecodeString (DebugCleartextPayload p) = Inr data"
      and rec: "recs ! i = \<lparr>Payload_pb = Some \<lparr>Data = data\<rparr>, SharedInfo_pb = SharedInfo r,
                   KeyId = []\<rparr>"
    by fastforce
  from data dec have "data = []"
    by simp
  with rec vals i
  show "\<exists>v. SerializeAggregatablePayload
                  \<lparr>Payload_pb = Some \<lparr>Data = []\<rparr>, SharedInfo_pb = SharedInfo r, KeyId = []\<rparr>
                = Inr v
              \<and> m (Itoa (int i)) = Some v"
    by fastforce
qed

theorem C4_empty_cleartext_is_zero_length_payload_witness:
  "0 < length (AggregationServicePayloads three_payload_report)
   \<and> AggregationServicePayloads three_payload_report ! 0 = Some scenario_payload
   \<and> DebugCleartextPayload scenario_payload = []
   \<and> DecodeString (DebugCleartextPayload scenario_payload) = Inr []
   \<and> GetSerializedCleartextRecords three_payload_report
       = Inr [''0'' \<mapsto> ''CgASAlNJ'', ''1'' \<mapsto> ''CgMKAQMSAlNJ'', ''2'' \<mapsto> ''CgASAlNJ'']
   \<and> SerializeAggregatablePayload
        \<lparr>Payload_pb = Some \<lparr>Data = []\<rparr>, SharedInfo_pb = SharedInfo three_payload_report,
         KeyId = []\<rparr>
       = Inr ''CgASAlNJ''"
proof -
  have h: "0 < length (AggregationServicePayloads three_payload_report)"
    "AggregationServicePayloads three_payload_report ! 0 = Some scenario_payload"
    "DebugCleartextPayload scenario_payload = []"
    by (simp_all add: three_payload_report_def sample_defs)
  have s: "SharedInfo three_payload_report = ''SI''"
    by (simp add: three_payload_report_def report_of_def)
  from C4_empty_cleartext_is_zero_length_payload [OF h]
  have "DecodeString (DebugCleartextPayload scenario_payload) = Inr []"
    by (rule conjunct1)
  with h show ?thesis
    by (simp add: three_payload_maps Serialize_samples s)
qed

section \<open>The transport map\<close>

text \<open>
  C5. The keys of a map that \<open>convertReport\<close> returns are the decimal forms of the
  positions of the payload entries: the key \<^verbatim>\<open>0\<close> alone for one entry, the keys
  \<^verbatim>\<open>0\<close> and \<^verbatim>\<open>1\<close> for two. The value under the key of position \<open>i\<close> is the
  serialization of the \<open>i\<close>-th extracted record; on the encrypted channel that
  record is made of the bytes decoded from the \<open>Payload\<close> of the entry, the shared
  info of the report and the \<open>KeyID\<close> of the entry.
\<close>

theorem C5_transport_map_keys_and_values:
  assumes "convertReport r useCleartext = Inr m"
  shows "dom m = (\<lambda>i. Itoa (int i)) ` {..<length (AggregationServicePayloads r)}
    \<and> (length (AggregationServicePayloads r) = 1 \<longrightarrow> dom m = {''0''})
    \<and> (length (AggregationServicePayloads r) = 2 \<longrightarrow> dom m = {''0'', ''1''})
    \<and> (\<exists>recs. ExtractPayloadsFromAggregatableReport r useCleartext = Inr recs
          \<and> length recs = length (AggregationServicePayloads r)
          \<and> (\<forall>i<length recs. \<exists>v. SerializeAggregatablePayload (recs ! i) = Inr v
                \<and> m (Itoa (int i)) = Some v))
    \<and> (\<not> useCleartext \<longrightarrow>
          (\<forall>i<length (AggregationServicePayloads r). \<exists>p data v.
              AggregationServicePayloads r ! i = Some p
              \<and> DecodeString (Payload p) = Inr data
              \<and> SerializeAggregatablePayload
                    \<lparr>Payload_pb = Some \<lparr>Data = data\<rparr>, SharedInfo_pb = SharedInfo r,
                     KeyId = KeyID p\<rparr> = Inr v
              \<and> m (Itoa (int i)) = Some v))"
proof -
  from convertReport_Inr [OF assms] obtain recs
    where recs: "ExtractPayloadsFromAggregatableReport r useCleartext = Inr recs"
      and len: "length recs = length (AggregationServicePayloads r)"
      and dom: "dom m = (\<lambda>i. Itoa (int i)) ` {..<length recs}"
      and vals: "\<forall>i<length recs. \<exists>v. SerializeAggregatablePayload (recs ! i) = Inr v
            \<and> m (Itoa (int i)) = Some v"
    by blast
  have d: "dom m = (\<lambda>i. Itoa (int i)) ` {..<length (AggregationServicePayloads r)}"
    using dom len by simp
  have one: "dom m = {''0''}" if "length (AggregationServicePayloads r) = 1"
    using d that by (simp add: lessThan_Suc Itoa_digits)
  have two: "dom m = {''0'', ''1''}" if "length (AggregationServicePayloads r) = 2"
  proof -
    have "{..<(2::nat)} = {0, 1}"
      by auto
    with d that show ?thesis
      by (simp add: Itoa_digits)
  qed
  have enc: "\<exists>p data v. AggregationServicePayloads r ! i = Some p
              \<and> DecodeString (Payload p) = Inr data
              \<and> SerializeAggregatablePayload
                    \<lparr>Payload_pb = Some \<lparr>Data = data\<rparr>, SharedInfo_pb = SharedInfo r,
                     KeyId = KeyID p\<rparr> = Inr v
              \<and> m (Itoa (int i)) = Some v"
    if "\<not> useCleartext" "i < length (AggregationServicePayloads r)" for i
  proof -
    from that len have i: "i < length recs"
      by simp
    with ExtractPayloads_Inr [OF recs] that(1) obtain p data
      where "AggregationServicePayloads r ! i = Some p" "DecodeString (Payload p) = Inr data"
        "recs ! i = \<lparr>Payload_pb = Some \<lparr>Data = data\<rparr>, SharedInfo_pb = SharedInfo r,
                     KeyId = KeyID p\<rparr>"
      by fastforce
    with vals i show ?thesis
      by fastforce
  qed
  have ex: "\<exists>recs. ExtractPayloadsFromAggregatableReport r useCleartext = Inr recs
          \<and> length recs = length (AggregationServicePayloads r)
          \<and> (\<forall>i<length recs. \<exists>v. SerializeAggregatablePayload (recs ! i) = Inr v
                \<and> m (Itoa (int i)) = Some v)"
    using recs len vals by (intro exI [of _ recs]) simp
  show ?thesis
  proof (intro conjI impI allI)
    show "dom m = (\<lambda>i. Itoa (int i)) ` {..<length (AggregationServicePayloads r)}"
      by (rule d)
  next
    assume "length (AggregationServicePayloads r) = 1"
    then show "dom m = {''0''}"
      by (rule one)
  next
    assume "length (AggregationServicePayloads r) = 2"
    then show "dom m = {''0'', ''1''}"
      by (rule two)
  next
    show "\<exists>recs. ExtractPayloadsFromAggregatableReport r useCleartext = Inr recs
          \<and> length recs = length (AggregationServicePayloads r)
          \<and> (\<forall>i<length recs. \<exists>v. SerializeAggregatablePayload (recs ! i) = Inr v
                \<and> m (Itoa (int i)) = Some v)"
      by (rule ex)
  next
    fix i
    assume "\<not> useCleartext" "i < length (AggregationServicePayloads r)"
    then show "\<exists>p data v. AggregationServicePayloads r ! i = Some p
              \<and> DecodeString (Payload p) = Inr data
              \<and> SerializeAggregatablePayload
                    \<lparr>Payload_pb = Some \<lparr>Data = data\<rparr>, SharedInfo_pb = SharedInfo r,
                     KeyId = KeyID p\<rparr> = Inr v
              \<and> m (Itoa (int i)) = Some v"
      by (rule enc)
  qed
qed

theorem C5_transport_map_keys_and_values_witness:
  "convertReport scenario_report False = Inr [''0'' \<mapsto> ''CgMKAQESAlNJGgJrMQ=='']
   \<and> dom [''0'' \<mapsto> ''CgMKAQESAlNJGgJrMQ==''] = {''0''}
   \<and> convertReport two_party_report False
       = Inr [''0'' \<mapsto> ''CgMKAQESAlNJGgJrMQ=='', ''1'' \<mapsto> ''CgMKAQISAlNJGgJrMg=='']
   \<and> dom [''0'' \<mapsto> ''CgMKAQESAlNJGgJrMQ=='', ''1'' \<mapsto> ''CgMKAQISAlNJGgJrMg==''] = {''0'', ''1''}
   \<and> length (AggregationServicePayloads scenario_report) = 1
   \<and> length (AggregationServicePayloads two_party_report) = 2"
proof -
  have a: "convertReport scenario_report False = Inr [''0'' \<mapsto> ''CgMKAQESAlNJGgJrMQ=='']"
    using scenario_maps(1) by (simp only: GetSerializedEncryptedRecords_def)
  have b: "convertReport two_party_report False
       = Inr [''0'' \<mapsto> ''CgMKAQESAlNJGgJrMQ=='', ''1'' \<mapsto> ''CgMKAQISAlNJGgJrMg=='']"
    using two_party_maps by (simp only: GetSerializedEncryptedRecords_def)
  have l: "length (AggregationServicePayloads scenario_report) = 1"
    "length (AggregationServicePayloads two_party_report) = 2"
    by (simp_all add: sample_defs)
  note ta = C5_transport_map_keys_and_values [OF a]
  note tb = C5_transport_map_keys_and_values [OF b]
  from ta l(1) have da: "dom [''0'' \<mapsto> ''CgMKAQESAlNJGgJrMQ==''] = {''0''}"
    by (elim conjE) (erule (1) mp)
  from tb l(2)
  have db: "dom [''0'' \<mapsto> ''CgMKAQESAlNJGgJrMQ=='', ''1'' \<mapsto> ''CgMKAQISAlNJGgJrMg==''] = {''0'', ''1''}"
    by (elim conjE) (erule (1) mp)
  from a b l da db show ?thesis
    by (intro conjI)
qed

section \<open>Errors of the pipeline\<close>

text \<open>
  C6. An error of the extraction is the result of \<open>convertReport\<close>. When the
  extraction succeeds and the serialization of a record fails, the error of the first
  record that fails is the result, although the records before it had been put into
  the map: the result is the error and no map. A map is returned only when the
  extraction and the serialization of every record succeeded. The two exported
  functions are \<open>convertReport\<close> at the two values of the flag.
\<close>

theorem C6_first_error_and_no_partial_map:
  "(ExtractPayloadsFromAggregatableReport r useCleartext = Inl e \<longrightarrow>
      convertReport r useCleartext = Inl e)
   \<and> (\<forall>recs i. ExtractPayloadsFromAggregatableReport r useCleartext = Inr recs
         \<and> i < length recs
         \<and> SerializeAggregatablePayload (recs ! i) = Inl e
         \<and> (\<forall>j<i. \<exists>v. SerializeAggregatablePayload (recs ! j) = Inr v)
         \<longrightarrow> convertReport r useCleartext = Inl e)
   \<and> (\<forall>m. convertReport r useCleartext = Inr m \<longrightarrow>
         (\<exists>recs. ExtractPayloadsFromAggregatableReport r useCleartext = Inr recs
            \<and> (\<forall>rec \<in> set recs. \<exists>v. SerializeAggregatablePayload rec = Inr v)))
   \<and> GetSerializedEncryptedRecords r = convertReport r False
   \<and> GetSerializedCleartextRecords r = convertReport r True"
proof (intro conjI allI impI)
  assume "ExtractPayloadsFromAggregatableReport r useCleartext = Inl e"
  then show "convertReport r useCleartext = Inl e"
    by (simp add: convertReport_def)
next
  fix recs i
  assume a: "ExtractPayloadsFromAggregatableReport r useCleartext = Inr recs
         \<and> i < length recs
         \<and> SerializeAggregatablePayload (recs ! i) = Inl e
         \<and> (\<forall>j<i. \<exists>v. SerializeAggregatablePayload (recs ! j) = Inr v)"
  then have "convert_loop 0 recs Map.empty = Inl e"
    by (intro convert_loop_first_error [of i]) simp_all
  with a show "convertReport r useCleartext = Inl e"
    by (simp add: convertReport_def)
next
  fix m
  assume m: "convertReport r useCleartext = Inr m"
  then obtain recs where recs: "ExtractPayloadsFromAggregatableReport r useCleartext = Inr recs"
    and loop: "convert_loop 0 recs Map.empty = Inr m"
    by (auto simp: convertReport_def split: sum.splits)
  have "\<exists>v. SerializeAggregatablePayload rec = Inr v" if "rec \<in> set recs" for rec
  proof -
    from that obtain i where "i < length recs" "recs ! i = rec"
      by (auto simp: in_set_conv_nth)
    with convert_loop_Inr [OF loop] show ?thesis
      by auto
  qed
  with recs show "\<exists>recs. ExtractPayloadsFromAggregatableReport r useCleartext = Inr recs
            \<and> (\<forall>rec \<in> set recs. \<exists>v. SerializeAggregatablePayload rec = Inr v)"
    by blast
next
  show "GetSerializedEncryptedRecords r = convertReport r False"
    by (simp add: GetSerializedEncryptedRecords_def)
next
  show "GetSerializedCleartextRecords r = convertReport r True"
    by (simp add: GetSerializedCleartextRecords_def)
qed

theorem C6_first_error_and_no_partial_map_witness:
  "ExtractPayloadsFromAggregatableReport bad_base64_report False = Inl (CorruptInputError 0)
   \<and> GetSerializedEncryptedRecords bad_base64_report = Inl (CorruptInputError 0)
   \<and> SerializeAggregatablePayload
        \<lparr>Payload_pb = Some \<lparr>Data = [CHR 0x01]\<rparr>, SharedInfo_pb = ''SI'', KeyId = ''k1''\<rparr>
       = Inr ''CgMKAQESAlNJGgJrMQ==''
   \<and> SerializeAggregatablePayload
        \<lparr>Payload_pb = Some \<lparr>Data = [CHR 0x02]\<rparr>, SharedInfo_pb = ''SI'', KeyId = [CHR 0xFF]\<rparr>
       = Inl InvalidUTF8
   \<and> GetSerializedEncryptedRecords bad_key_report = Inl InvalidUTF8"
proof -
  note a = C6_first_error_and_no_partial_map [of bad_base64_report False "CorruptInputError 0"]
  note b = C6_first_error_and_no_partial_map [of bad_key_report False InvalidUTF8]
  from a have 1: "GetSerializedEncryptedRecords bad_base64_report = Inl (CorruptInputError 0)"
    by (simp add: bad_base64_extract)
  from b have "ExtractPayloadsFromAggregatableReport bad_key_report False
        = Inr [\<lparr>Payload_pb = Some \<lparr>Data = [CHR 0x01]\<rparr>, SharedInfo_pb = ''SI'', KeyId = ''k1''\<rparr>,
            \<lparr>Payload_pb = Some \<lparr>Data = [CHR 0x02]\<rparr>, SharedInfo_pb = ''SI'',
              KeyId = [CHR 0xFF]\<rparr>]
      \<and> Suc 0 < length [\<lparr>Payload_pb = Some \<lparr>Data = [CHR 0x01]\<rparr>, SharedInfo_pb = ''SI'', KeyId = ''k1''\<rparr>,
            \<lparr>Payload_pb = Some \<lparr>Data = [CHR 0x02]\<rparr>, SharedInfo_pb = ''SI'',
              KeyId = [CHR 0xFF]\<rparr>]
      \<and> SerializeAggregatablePayload
           ([\<lparr>Payload_pb = Some \<lparr>Data = [CHR 0x01]\<rparr>, SharedInfo_pb = ''SI'', KeyId = ''k1''\<rparr>,
            \<lparr>Payload_pb = Some \<lparr>Data = [CHR 0x02]\<rparr>, SharedInfo_pb = ''SI'',
              KeyId = [CHR 0xFF]\<rparr>] ! Suc 0) = Inl InvalidUTF8
      \<and> (\<forall>j<Suc 0. \<exists>v. SerializeAggregatablePayload
           ([\<lparr>Payload_pb = Some \<lparr>Data = [CHR 0x01]\<rparr>, SharedInfo_pb = ''SI'', KeyId = ''k1''\<rparr>,
            \<lparr>Payload_pb = Some \<lparr>Data = [CHR 0x02]\<rparr>, SharedInfo_pb = ''SI'',
              KeyId = [CHR 0xFF]\<rparr>] ! j) = Inr v)
      \<longrightarrow> GetSerializedEncryptedRecords bad_key_report = Inl InvalidUTF8"
    by metis
  then have 2: "GetSerializedEncryptedRecords bad_key_report = Inl InvalidUTF8"
    by (simp add: bad_key_extract bad_key_serialize Serialize_samples)
  from 1 2 show ?thesis
    by (simp add: bad_base64_extract bad_key_serialize Serialize_samples)
qed

section \<open>Debug detection\<close>

text \<open>
  C7. On a report whose payload sequence starts with an entry, \<open>IsDebugReport\<close>
  returns true exactly when the cleartext field of that entry is not empty. The
  result is the same for any two reports whose first entries agree on that field,
  whatever their other payloads and their other fields are. (A \<^verbatim>\<open>nil\<close> pointer at
  index 0 is no entry and has no field to read: the call panics on it.)
\<close>

theorem C7_debug_status_from_first_payload:
  "AggregationServicePayloads r = Some p # rest \<Longrightarrow>
     IsDebugReport r = Inr (DebugCleartextPayload p \<noteq> [])
     \<and> (\<forall>r' p' rest'.
           AggregationServicePayloads r' = Some p' # rest'
           \<and> DebugCleartextPayload p' = DebugCleartextPayload p
           \<longrightarrow> IsDebugReport r' = IsDebugReport r)"
  by (simp add: IsDebugReport_def)

theorem C7_debug_status_from_first_payload_witness:
  "IsDebugReport scenario_report = Inr False
   \<and> IsDebugReport (report_of ''SI'' [Some (scenario_payload\<lparr>DebugCleartextPayload := ''AQ==''\<rparr>),
        Some scenario_payload]) = Inr True
   \<and> IsDebugReport (report_of ''other'' [Some scenario_payload,
        Some (scenario_payload\<lparr>DebugCleartextPayload := ''AQ==''\<rparr>), None])
       = IsDebugReport scenario_report"
  using C7_debug_status_from_first_payload [of scenario_report scenario_payload "[]"]
    C7_debug_status_from_first_payload
      [of "report_of ''SI'' [Some (scenario_payload\<lparr>DebugCleartextPayload := ''AQ==''\<rparr>),
             Some scenario_payload]"
          "scenario_payload\<lparr>DebugCleartextPayload := ''AQ==''\<rparr>" "[Some scenario_payload]"]
  by (simp add: scenario_report_def report_of_def scenario_payload_def)

text \<open>
  C8. \<open>IsDebugReport\<close> indexes the payload sequence at 0 without a check. The index
  is out of range exactly on a report with no payloads, where the call panics; on a
  report whose sequence starts with an entry the call returns a value.
\<close>

theorem C8_debug_detection_needs_a_payload:
  "(AggregationServicePayloads r \<noteq> [] \<longrightarrow> IsDebugReport r \<noteq> Inl Panic_index_out_of_range)
   \<and> (AggregationServicePayloads r = [] \<longrightarrow> IsDebugReport r = Inl Panic_index_out_of_range)
   \<and> (\<forall>p rest. AggregationServicePayloads r = Some p # rest \<longrightarrow>
         IsDebugReport r = Inr (DebugCleartextPayload p \<noteq> []))"
  by (auto simp: IsDebugReport_def split: list.splits option.splits)

theorem C8_debug_detection_needs_a_payload_witness:
  "IsDebugReport (report_of ''SI'' []) = Inl Panic_index_out_of_range
   \<and> IsDebugReport scenario_report \<noteq> Inl Panic_index_out_of_range
   \<and> IsDebugReport scenario_report = Inr False"
  using C8_debug_detection_needs_a_payload [of "report_of ''SI'' []"]
    C8_debug_detection_needs_a_payload [of scenario_report]
  by (simp add: scenario_report_def report_of_def scenario_payload_def)

section \<open>The encrypted channel does not read the cleartext\<close>

text \<open>
  C9. Take two reports that differ at most in the cleartext fields of their payload
  entries: the second is the first with its payload list replaced by a list that agrees
  with it once every cleartext field is blanked. On the encrypted channel the
  extraction, the conversion and \<open>GetSerializedEncryptedRecords\<close> give the same result
  on both reports, be it a value or an error. The cleartext fields may hold anything,
  also text that is not base64.
\<close>

theorem C9_encrypted_path_ignores_cleartext:
  assumes "r' = r\<lparr>AggregationServicePayloads := ps'\<rparr>"
    and "map (map_option (\<lambda>p. p\<lparr>DebugCleartextPayload := []\<rparr>)) ps'
         = map (map_option (\<lambda>p. p\<lparr>DebugCleartextPayload := []\<rparr>)) (AggregationServicePayloads r)"
  shows "ExtractPayloadsFromAggregatableReport r' False = ExtractPayloadsFromAggregatableReport r False
    \<and> convertReport r' False = convertReport r False
    \<and> GetSerializedEncryptedRecords r' = GetSerializedEncryptedRecords r"
proof -
  have "ExtractPayloadsFromAggregatableReport r' False = ExtractPayloadsFromAggregatableReport r False"
    using extract_loop_encrypted_ignores_cleartext [OF assms(2)]
    by (simp add: ExtractPayloadsFromAggregatableReport_def assms(1))
  then show ?thesis
    by (simp add: convertReport_def GetSerializedEncryptedRecords_def)
qed

theorem C9_encrypted_path_ignores_cleartext_witness:
  "DecodeString ''!!!'' = Inl (CorruptInputError 0)
   \<and> GetSerializedEncryptedRecords
        (scenario_report\<lparr>AggregationServicePayloads :=
           [Some (scenario_payload\<lparr>DebugCleartextPayload := ''!!!''\<rparr>)]\<rparr>)
       = GetSerializedEncryptedRecords scenario_report
   \<and> GetSerializedEncryptedRecords scenario_report = Inr [''0'' \<mapsto> ''CgMKAQESAlNJGgJrMQ=='']
   \<and> GetSerializedCleartextRecords
        (scenario_report\<lparr>AggregationServicePayloads :=
           [Some (scenario_payload\<lparr>DebugCleartextPayload := ''!!!''\<rparr>)]\<rparr>)
       = Inl (CorruptInputError 0)"
proof -
  have h: "map (map_option (\<lambda>p. p\<lparr>DebugCleartextPayload := []\<rparr>))
        [Some (scenario_payload\<lparr>DebugCleartextPayload := ''!!!''\<rparr>)]
      = map (map_option (\<lambda>p. p\<lparr>DebugCleartextPayload := []\<rparr>))
          (AggregationServicePayloads scenario_report)"
    by (simp add: sample_defs)
  from C9_encrypted_path_ignores_cleartext [OF refl h]
  have "GetSerializedEncryptedRecords
        (scenario_report\<lparr>AggregationServicePayloads :=
           [Some (scenario_payload\<lparr>DebugCleartextPayload := ''!!!''\<rparr>)]\<rparr>)
       = GetSerializedEncryptedRecords scenario_report"
    by (elim conjE)
  moreover have "GetSerializedCleartextRecords
        (scenario_report\<lparr>AggregationServicePayloads :=
           [Some (scenario_payload\<lparr>DebugCleartextPayload := ''!!!''\<rparr>)]\<rparr>)
       = Inl (CorruptInputError 0)"
    by (simp add: GetSerializedCleartextRecords_def convertReport_def
        ExtractPayloadsFromAggregatableReport_def sample_defs DecodeString_samples)
  ultimately show ?thesis
    by (simp add: scenario_maps DecodeString_samples)
qed

section \<open>The pipeline does not check the payload count\<close>

text \<open>
  C10. On a report with no payloads both exported functions return the empty map. On
  a report with any number of entries, three or more in particular, that are present
  and decode on the chosen channel, with a shared info and (on the encrypted channel)
  key identifiers that are valid UTF-8, they return a map with one entry for each
  payload. On no report do they return an error made by \<^verbatim>\<open>fmt.Errorf\<close>, which is
  what the payload-count errors of \<open>GetProtocol\<close> and \<open>Validate\<close> are.
\<close>

theorem C10_pipeline_accepts_any_payload_count:
  "(AggregationServicePayloads r = [] \<longrightarrow>
      GetSerializedEncryptedRecords r = Inr Map.empty
      \<and> GetSerializedCleartextRecords r = Inr Map.empty)
   \<and> (ValidString (SharedInfo r)
       \<and> (\<forall>e \<in> set (AggregationServicePayloads r). \<exists>p data. e = Some p
             \<and> DecodeString (Payload p) = Inr data \<and> ValidString (KeyID p))
       \<longrightarrow> (\<exists>m. GetSerializedEncryptedRecords r = Inr m
              \<and> dom m = (\<lambda>i. Itoa (int i)) ` {..<length (AggregationServicePayloads r)}
              \<and> card (dom m) = length (AggregationServicePayloads r)))
   \<and> (ValidString (SharedInfo r)
       \<and> (\<forall>e \<in> set (AggregationServicePayloads r). \<exists>p data. e = Some p
             \<and> DecodeString (DebugCleartextPayload p) = Inr data)
       \<longrightarrow> (\<exists>m. GetSerializedCleartextRecords r = Inr m
              \<and> dom m = (\<lambda>i. Itoa (int i)) ` {..<length (AggregationServicePayloads r)}
              \<and> card (dom m) = length (AggregationServicePayloads r)))
   \<and> (\<forall>msg. GetSerializedEncryptedRecords r \<noteq> Inl (Errorf msg)
          \<and> GetSerializedCleartextRecords r \<noteq> Inl (Errorf msg))"
proof (intro conjI impI allI)
  assume "AggregationServicePayloads r = []"
  then show "GetSerializedEncryptedRecords r = Inr Map.empty"
    and "GetSerializedCleartextRecords r = Inr Map.empty"
    by (simp_all add: GetSerializedEncryptedRecords_def GetSerializedCleartextRecords_def
        convertReport_def ExtractPayloadsFromAggregatableReport_def)
next
  assume "ValidString (SharedInfo r)
       \<and> (\<forall>e \<in> set (AggregationServicePayloads r). \<exists>p data. e = Some p
             \<and> DecodeString (Payload p) = Inr data \<and> ValidString (KeyID p))"
  then show "\<exists>m. GetSerializedEncryptedRecords r = Inr m
              \<and> dom m = (\<lambda>i. Itoa (int i)) ` {..<length (AggregationServicePayloads r)}
              \<and> card (dom m) = length (AggregationServicePayloads r)"
    unfolding GetSerializedEncryptedRecords_def
    by (intro convertReport_succeeds) simp_all
next
  assume "ValidString (SharedInfo r)
       \<and> (\<forall>e \<in> set (AggregationServicePayloads r). \<exists>p data. e = Some p
             \<and> DecodeString (DebugCleartextPayload p) = Inr data)"
  then show "\<exists>m. GetSerializedCleartextRecords r = Inr m
              \<and> dom m = (\<lambda>i. Itoa (int i)) ` {..<length (AggregationServicePayloads r)}
              \<and> card (dom m) = length (AggregationServicePayloads r)"
    unfolding GetSerializedCleartextRecords_def
    by (intro convertReport_succeeds) simp_all
next
  fix msg
  show "GetSerializedEncryptedRecords r \<noteq> Inl (Errorf msg)"
    unfolding GetSerializedEncryptedRecords_def
    using convertReport_error [of r False "Errorf msg"] by auto
  show "GetSerializedCleartextRecords r \<noteq> Inl (Errorf msg)"
    unfolding GetSerializedCleartextRecords_def
    using convertReport_error [of r True "Errorf msg"] by auto
qed

theorem C10_pipeline_accepts_any_payload_count_witness:
  "GetSerializedEncryptedRecords (report_of ''SI'' []) = Inr Map.empty
   \<and> GetSerializedCleartextRecords (report_of ''SI'' []) = Inr Map.empty
   \<and> length (AggregationServicePayloads three_payload_report) = 3
   \<and> GetSerializedEncryptedRecords three_payload_report
       = Inr [''0'' \<mapsto> ''CgMKAQESAlNJGgJrMQ=='', ''1'' \<mapsto> ''CgMKAQISAlNJGgJrMg=='',
              ''2'' \<mapsto> ''CgMKAQESAlNJGgJrMQ=='']
   \<and> card (dom [''0'' \<mapsto> ''CgMKAQESAlNJGgJrMQ=='', ''1'' \<mapsto> ''CgMKAQISAlNJGgJrMg=='',
              ''2'' \<mapsto> ''CgMKAQESAlNJGgJrMQ=='']) = 3
   \<and> GetSerializedCleartextRecords three_payload_report
       = Inr [''0'' \<mapsto> ''CgASAlNJ'', ''1'' \<mapsto> ''CgMKAQMSAlNJ'', ''2'' \<mapsto> ''CgASAlNJ'']
   \<and> card (dom [''0'' \<mapsto> ''CgASAlNJ'', ''1'' \<mapsto> ''CgMKAQMSAlNJ'', ''2'' \<mapsto> ''CgASAlNJ'']) = 3"
proof -
  note e = C10_pipeline_accepts_any_payload_count [of "report_of ''SI'' []"]
  note t = C10_pipeline_accepts_any_payload_count [of three_payload_report]
  have l: "length (AggregationServicePayloads three_payload_report) = 3"
    by (simp add: three_payload_report_def report_of_def)
  have wf: "ValidString (SharedInfo three_payload_report)"
    "\<forall>e \<in> set (AggregationServicePayloads three_payload_report). \<exists>p data. e = Some p
        \<and> DecodeString (Payload p) = Inr data \<and> ValidString (KeyID p)"
    "\<forall>e \<in> set (AggregationServicePayloads three_payload_report). \<exists>p data. e = Some p
        \<and> DecodeString (DebugCleartextPayload p) = Inr data"
    by (simp_all add: three_payload_report_def sample_defs DecodeString_samples
        ValidString_samples)
  from e have 0: "GetSerializedEncryptedRecords (report_of ''SI'' []) = Inr Map.empty"
    "GetSerializedCleartextRecords (report_of ''SI'' []) = Inr Map.empty"
    by (simp_all add: report_of_def)
  from t wf(1,2) obtain m where "GetSerializedEncryptedRecords three_payload_report = Inr m"
    "card (dom m) = length (AggregationServicePayloads three_payload_report)"
    by blast
  with l have 1: "card (dom [''0'' \<mapsto> ''CgMKAQESAlNJGgJrMQ=='', ''1'' \<mapsto> ''CgMKAQISAlNJGgJrMg=='',
              ''2'' \<mapsto> ''CgMKAQESAlNJGgJrMQ=='']) = 3"
    by (simp only: three_payload_maps sum.inject)
  from t wf(1,3) obtain m' where "GetSerializedCleartextRecords three_payload_report = Inr m'"
    "card (dom m') = length (AggregationServicePayloads three_payload_report)"
    by blast
  with l have 2: "card (dom [''0'' \<mapsto> ''CgASAlNJ'', ''1'' \<mapsto> ''CgMKAQMSAlNJ'',
      ''2'' \<mapsto> ''CgASAlNJ'']) = 3"
    by (simp only: three_payload_maps sum.inject)
  from 0 l 1 2 three_payload_maps show ?thesis
    by (intro conjI)
qed

end
